theory Spec2Isabelle
  imports Complex_Main "HOL-Library.AList" "HOL-Library.Multiset"
begin

section \<open>The authoritative game server (server.js)\<close>

text \<open>
  The server keeps its whole state in module-level variables and changes it from
  event handlers that the single-threaded runtime runs one at a time: the socket
  handlers \<^verbatim>\<open>joinGame\<close>, \<^verbatim>\<open>move\<close>, \<^verbatim>\<open>disconnect\<close>, and the callbacks of the
  timers created by \<^verbatim>\<open>setInterval\<close> and \<^verbatim>\<open>setTimeout\<close>. The embedding is a state
  record and one function per source function, each taking the state and returning
  the new one; a handler run is one step of \<open>step\<close>.

  Conventions of the embedding:
  \<^item> \<^verbatim>\<open>players\<close> is a JavaScript object keyed by socket id. Its iteration order
    (\<^verbatim>\<open>for ... in\<close>, \<^verbatim>\<open>Object.keys\<close>, \<^verbatim>\<open>Object.values\<close>) is the insertion order of
    the keys, socket ids not being array indices; assigning to an existing key keeps
    its place. It is an association list with \<open>AList.update\<close> and \<open>AList.delete\<close>.
  \<^item> JavaScript numbers are idealised: coordinates are \<open>real\<close>, the score and the
    round timer are \<open>int\<close>.
  \<^item> \<^verbatim>\<open>Math.random()\<close>, \<^verbatim>\<open>Date.now()\<close> and the socket library's table of
    connected sockets are inputs of the handler that reads them.
  \<^item> The runtime's timer table is part of the state: \<open>timers\<close> lists the live timers
    with the callback each one runs, \<open>nextTimer\<close> is the next fresh handle.
  \<^item> \<^verbatim>\<open>io.emit\<close> and \<^verbatim>\<open>socket.emit\<close> append to the log \<open>emitted\<close>.
  \<^item> The payloads of the socket events are well-formed: the name of \<^verbatim>\<open>joinGame\<close> is
    a string, the position of \<^verbatim>\<open>move\<close> has three numbers.
  \<^item> server.js comes in two listings that differ in the payload of \<^verbatim>\<open>gameOver\<close>
    alone: the first sends the winner's name, the second the name and the score.
    Both are embedded: \<open>endGame\<close>, \<open>countdown\<close>, \<open>step\<close>, \<open>run\<close> and \<open>reachable\<close>
    are the second listing; \<open>endGame1\<close>, \<open>countdown1\<close>, \<open>step1\<close>, \<open>run1\<close> and
    \<open>reachable1\<close> are the first. Every other function is the same in both.
\<close>

subsection \<open>Data\<close>

type_synonym sid = string

record player =
  pid :: sid
  name :: string
  px :: real
  py :: real
  pz :: real
  score :: int

record treasure =
  tid :: "nat \<times> real"
  tx :: real
  ty :: real
  tz :: real

datatype timer_kind = GameLoopT | SpawnT | CountdownT | RestartT

text \<open>The messages sent: \<^verbatim>\<open>gameState\<close> and \<^verbatim>\<open>gameOver\<close> go to every socket
  (\<^verbatim>\<open>io.emit\<close>), \<^verbatim>\<open>gameJoined\<close> to the socket that joined. \<open>GameOver\<close> is the
  \<^verbatim>\<open>gameOver\<close> of the second listing, an object with the name and the score;
  \<open>GameOverName\<close> is the \<^verbatim>\<open>gameOver\<close> of the first listing, the name alone.\<close>

datatype message =
    GameState "(sid \<times> player) list" "treasure list" int "(string \<times> int) list"
  | GameOver string int
  | GameOverName string
  | GameJoined sid "(sid \<times> player) list" "treasure list" int "(string \<times> int) list"

text \<open>The values \<^verbatim>\<open>spawnTreasure\<close> reads from the environment: \<^verbatim>\<open>Date.now()\<close> and
  its three \<^verbatim>\<open>Math.random()\<close> draws, in the order of the source.\<close>

record draws =
  now :: nat
  r_id :: real
  r_x :: real
  r_z :: real

record state =
  players :: "(sid \<times> player) list"
  treasures :: "treasure list"
  gameInProgress :: bool
  gameTimer :: int
  countdownInterval :: "nat option"
  gameLoopInterval :: "nat option"
  treasureSpawnInterval :: "nat option"
  timers :: "(nat \<times> timer_kind) list"
  nextTimer :: nat
  emitted :: "message list"

definition init :: state where
  "init = \<lparr>players = [], treasures = [], gameInProgress = False, gameTimer = 60,
     countdownInterval = None, gameLoopInterval = None, treasureSpawnInterval = None,
     timers = [], nextTimer = 0, emitted = []\<rparr>"

subsection \<open>Timers of the runtime\<close>

definition setTimer :: "timer_kind \<Rightarrow> state \<Rightarrow> nat \<times> state" where
  "setTimer k s =
     (nextTimer s, s\<lparr>timers := timers s @ [(nextTimer s, k)], nextTimer := nextTimer s + 1\<rparr>)"

text \<open>\<^verbatim>\<open>clearInterval(undefined)\<close> does nothing.\<close>

definition clearInterval :: "nat option \<Rightarrow> state \<Rightarrow> state" where
  "clearInterval h s =
     (case h of None \<Rightarrow> s
      | Some i \<Rightarrow> s\<lparr>timers := filter (\<lambda>(j, k). j \<noteq> i) (timers s)\<rparr>)"

subsection \<open>spawnTreasure\<close>

definition spawnTreasure :: "draws \<Rightarrow> state \<Rightarrow> state" where
  "spawnTreasure d s =
     (if length (treasures s) \<ge> 20 then s
      else s\<lparr>treasures := treasures s @
             [\<lparr>tid = (now d, r_id d), tx = (r_x d - 0.5) * 50, ty = 0.5,
               tz = (r_z d - 0.5) * 50\<rparr>]\<rparr>)"

subsection \<open>getLeaderboard\<close>

text \<open>\<^verbatim>\<open>Array.prototype.sort\<close> with a comparator is a stable sort (ECMAScript 2019);
  for a comparator that is a consistent order every stable sort returns the same
  array, here computed by insertion from the right.\<close>

fun insort_by :: "('a \<Rightarrow> 'a \<Rightarrow> int) \<Rightarrow> 'a \<Rightarrow> 'a list \<Rightarrow> 'a list" where
  "insort_by c x [] = [x]"
| "insort_by c x (y # ys) = (if c x y \<le> 0 then x # y # ys else y # insort_by c x ys)"

definition sort_by :: "('a \<Rightarrow> 'a \<Rightarrow> int) \<Rightarrow> 'a list \<Rightarrow> 'a list" where
  "sort_by c xs = foldr (insort_by c) xs []"

definition getLeaderboard :: "(sid \<times> player) list \<Rightarrow> (string \<times> int) list" where
  "getLeaderboard ps =
     map (\<lambda>p. (name p, score p))
       (take 5 (sort_by (\<lambda>a b. score b - score a) (map snd ps)))"

subsection \<open>gameLoop\<close>

definition distance :: "player \<Rightarrow> treasure \<Rightarrow> real" where
  "distance p t = sqrt ((px p - tx t)\<^sup>2 + (pz p - tz t)\<^sup>2)"

text \<open>The test of the callback, \<^verbatim>\<open>distance < 1.5\<close>.\<close>

definition collides :: "player \<Rightarrow> treasure \<Rightarrow> bool" where
  "collides p t \<longleftrightarrow> distance p t < 1.5"

text \<open>\<^verbatim>\<open>treasures.forEach\<close> reads the length once, then visits the indices
  \<open>0 .. len - 1\<close> in turn and calls the callback at every index that is still
  present in the array; the callback's \<^verbatim>\<open>splice(index, 1)\<close> shortens the array
  under the running loop.\<close>

function forEachLoop :: "nat \<Rightarrow> nat \<Rightarrow> player \<Rightarrow> treasure list \<Rightarrow> player \<times> treasure list" where
  "forEachLoop k len p ts =
     (if k < len then
        (if k < length ts then
           (if collides p (ts ! k)
            then forEachLoop (k + 1) len (p\<lparr>score := score p + 1\<rparr>) (take k ts @ drop (k + 1) ts)
            else forEachLoop (k + 1) len p ts)
         else forEachLoop (k + 1) len p ts)
      else (p, ts))"
  by pat_completeness auto
termination
  by (relation "measure (\<lambda>(k, len, p, ts). len - k)") auto

declare forEachLoop.simps [simp del]

fun collisions :: "(sid \<times> player) list \<Rightarrow> treasure list \<Rightarrow> (sid \<times> player) list \<times> treasure list" where
  "collisions [] ts = ([], ts)"
| "collisions ((i, p) # ps) ts =
     (case forEachLoop 0 (length ts) p ts of
        (p', ts') \<Rightarrow> (case collisions ps ts' of (ps', ts'') \<Rightarrow> ((i, p') # ps', ts'')))"

definition gameLoop :: "state \<Rightarrow> state" where
  "gameLoop s =
     (case collisions (players s) (treasures s) of
        (ps, ts) \<Rightarrow>
          s\<lparr>players := ps, treasures := ts,
            emitted := emitted s @ [GameState ps ts (gameTimer s) (getLeaderboard ps)]\<rparr>)"

subsection \<open>startGame and endGame\<close>

definition startGame :: "draws \<Rightarrow> state \<Rightarrow> state" where
  "startGame d s =
     (let s1 = s\<lparr>gameInProgress := True, gameTimer := 60, treasures := [],
                 players := map (\<lambda>(i, p). (i, p\<lparr>score := 0\<rparr>)) (players s)\<rparr>;
          (h1, s2) = setTimer GameLoopT s1;
          s3 = s2\<lparr>gameLoopInterval := Some h1\<rparr>;
          (h2, s4) = setTimer SpawnT s3;
          s5 = s4\<lparr>treasureSpawnInterval := Some h2\<rparr>;
          s6 = spawnTreasure d s5;
          (h3, s7) = setTimer CountdownT s6
      in s7\<lparr>countdownInterval := Some h3\<rparr>)"

text \<open>The winner loop of \<^verbatim>\<open>endGame\<close>, with its two variables \<^verbatim>\<open>winner\<close> and
  \<^verbatim>\<open>highScore\<close>.\<close>

fun winnerLoop :: "(sid \<times> player) list \<Rightarrow> player option \<Rightarrow> int \<Rightarrow> player option" where
  "winnerLoop [] winner highScore = winner"
| "winnerLoop ((i, p) # ps) winner highScore =
     (if score p > highScore then winnerLoop ps (Some p) (score p)
      else winnerLoop ps winner highScore)"

definition determineWinner :: "(sid \<times> player) list \<Rightarrow> player option" where
  "determineWinner ps = winnerLoop ps None (- 1)"

text \<open>The payload of \<^verbatim>\<open>gameOver\<close>: the second listing of server.js sends the name
  and the score, the first listing the name alone.\<close>

definition gameOverPayload :: "player option \<Rightarrow> message" where
  "gameOverPayload winner =
     (case winner of Some w \<Rightarrow> GameOver (name w) (score w) | None \<Rightarrow> GameOver ''No one'' 0)"

definition gameOverName :: "player option \<Rightarrow> string" where
  "gameOverName winner = (case winner of Some w \<Rightarrow> name w | None \<Rightarrow> ''No one'')"

definition endGame :: "state \<Rightarrow> state" where
  "endGame s =
     (let s1 = s\<lparr>gameInProgress := False\<rparr>;
          s2 = clearInterval (gameLoopInterval s1) s1;
          s3 = clearInterval (treasureSpawnInterval s2) s2;
          s4 = clearInterval (countdownInterval s3) s3;
          s5 = s4\<lparr>emitted := emitted s4 @ [gameOverPayload (determineWinner (players s4))]\<rparr>
      in snd (setTimer RestartT s5))"

text \<open>\<^verbatim>\<open>endGame\<close> of the first listing:
  \<^verbatim>\<open>io.emit('gameOver', winner ? winner.name : 'No one')\<close>.\<close>

definition endGame1 :: "state \<Rightarrow> state" where
  "endGame1 s =
     (let s1 = s\<lparr>gameInProgress := False\<rparr>;
          s2 = clearInterval (gameLoopInterval s1) s1;
          s3 = clearInterval (treasureSpawnInterval s2) s2;
          s4 = clearInterval (countdownInterval s3) s3;
          s5 = s4\<lparr>emitted := emitted s4 @
                 [GameOverName (gameOverName (determineWinner (players s4)))]\<rparr>
      in snd (setTimer RestartT s5))"

text \<open>The callback of the timeout that \<^verbatim>\<open>endGame\<close> sets; \<open>ids\<close> is
  \<^verbatim>\<open>Object.keys(io.sockets.sockets)\<close>.\<close>

definition restart :: "draws \<Rightarrow> sid list \<Rightarrow> state \<Rightarrow> state" where
  "restart d ids s =
     (let s1 = s\<lparr>players := filter (\<lambda>(key, p). key \<in> set ids) (players s)\<rparr>
      in if length (players s1) > 0 then startGame d s1 else s1)"

text \<open>The callback of the countdown interval.\<close>

definition countdown :: "state \<Rightarrow> state" where
  "countdown s =
     (let s1 = s\<lparr>gameTimer := gameTimer s - 1\<rparr>
      in if gameTimer s1 \<le> 0 then endGame s1 else s1)"

text \<open>The same callback in the first listing.\<close>

definition countdown1 :: "state \<Rightarrow> state" where
  "countdown1 s =
     (let s1 = s\<lparr>gameTimer := gameTimer s - 1\<rparr>
      in if gameTimer s1 \<le> 0 then endGame1 s1 else s1)"

subsection \<open>Socket handlers\<close>

text \<open>The decimal numeral that \<^verbatim>\<open>'Player ' + n\<close> appends for a natural number.\<close>

definition digitChar :: "nat \<Rightarrow> char" where
  "digitChar n = char_of (48 + n)"

function decimal :: "nat \<Rightarrow> string" where
  "decimal n =
     (if n div 10 = 0 then [digitChar n] else decimal (n div 10) @ [digitChar (n mod 10)])"
  by pat_completeness auto
termination
  by (relation "measure (\<lambda>n. n)") auto

declare decimal.simps [simp del]

text \<open>The record that \<^verbatim>\<open>joinGame\<close> stores: an empty name is falsy and gets the
  generated one. The handler's own three draws are \<open>rn\<close>, \<open>rx\<close>, \<open>rz\<close>.\<close>

definition newPlayer :: "sid \<Rightarrow> string \<Rightarrow> real \<Rightarrow> real \<Rightarrow> real \<Rightarrow> player" where
  "newPlayer i playerName rn rx rz =
     \<lparr>pid = i,
      name = (if playerName \<noteq> [] then playerName
              else ''Player '' @ decimal (nat \<lfloor>rn * 1000\<rfloor>)),
      px = (rx - 0.5) * 10, py = 0.5, pz = (rz - 0.5) * 10, score = 0\<rparr>"

text \<open>\<open>d\<close> is read by \<^verbatim>\<open>startGame\<close>, when the handler calls it.\<close>

definition joinGame :: "sid \<Rightarrow> string \<Rightarrow> real \<Rightarrow> real \<Rightarrow> real \<Rightarrow> draws \<Rightarrow> state \<Rightarrow> state" where
  "joinGame i playerName rn rx rz d s =
     (let s1 = s\<lparr>players := AList.update i (newPlayer i playerName rn rx rz) (players s)\<rparr>;
          s2 = (if \<not> gameInProgress s1 \<and> length (players s1) > 0 then startGame d s1 else s1)
      in s2\<lparr>emitted := emitted s2 @
             [GameJoined i (players s2) (treasures s2) (gameTimer s2)
                (getLeaderboard (players s2))]\<rparr>)"

definition move :: "sid \<Rightarrow> real \<Rightarrow> real \<Rightarrow> real \<Rightarrow> state \<Rightarrow> state" where
  "move i x y z s =
     (case map_of (players s) i of
        None \<Rightarrow> s
      | Some p \<Rightarrow> s\<lparr>players := AList.update i (p\<lparr>px := x, py := y, pz := z\<rparr>) (players s)\<rparr>)"

definition disconnect :: "sid \<Rightarrow> state \<Rightarrow> state" where
  "disconnect i s =
     (let s1 = s\<lparr>players := AList.delete i (players s)\<rparr>
      in if length (players s1) = 0 then
           (let s2 = s1\<lparr>gameInProgress := False\<rparr>;
                s3 = clearInterval (gameLoopInterval s2) s2;
                s4 = clearInterval (treasureSpawnInterval s3) s3;
                s5 = clearInterval (countdownInterval s4) s4
            in s5\<lparr>treasures := []\<rparr>)
         else s1)"

subsection \<open>One handler run\<close>

text \<open>\<open>Fire i d ids\<close> is the runtime calling the callback of timer \<open>i\<close>: nothing
  happens when \<open>i\<close> is not live; a timeout leaves the table when it fires, an
  interval stays.\<close>

datatype event =
    JoinGame sid string real real real draws
  | Move sid real real real
  | Disconnect sid
  | Fire nat draws "sid list"

fun step :: "event \<Rightarrow> state \<Rightarrow> state" where
  "step (JoinGame i playerName rn rx rz d) s = joinGame i playerName rn rx rz d s"
| "step (Move i x y z) s = move i x y z s"
| "step (Disconnect i) s = disconnect i s"
| "step (Fire i d ids) s =
     (case map_of (timers s) i of
        None \<Rightarrow> s
      | Some GameLoopT \<Rightarrow> gameLoop s
      | Some SpawnT \<Rightarrow> spawnTreasure d s
      | Some CountdownT \<Rightarrow> countdown s
      | Some RestartT \<Rightarrow> restart d ids (s\<lparr>timers := filter (\<lambda>(j, k). j \<noteq> i) (timers s)\<rparr>))"

fun run :: "event list \<Rightarrow> state \<Rightarrow> state" where
  "run [] s = s"
| "run (e # es) s = run es (step e s)"

inductive reachable :: "state \<Rightarrow> bool" where
  reachable_init: "reachable init"
| reachable_step: "reachable s \<Longrightarrow> reachable (step e s)"

text \<open>One handler run of the first listing, which differs in the countdown's
  \<^verbatim>\<open>endGame\<close> alone.\<close>

fun step1 :: "event \<Rightarrow> state \<Rightarrow> state" where
  "step1 (JoinGame i playerName rn rx rz d) s = joinGame i playerName rn rx rz d s"
| "step1 (Move i x y z) s = move i x y z s"
| "step1 (Disconnect i) s = disconnect i s"
| "step1 (Fire i d ids) s =
     (case map_of (timers s) i of
        None \<Rightarrow> s
      | Some GameLoopT \<Rightarrow> gameLoop s
      | Some SpawnT \<Rightarrow> spawnTreasure d s
      | Some CountdownT \<Rightarrow> countdown1 s
      | Some RestartT \<Rightarrow> restart d ids (s\<lparr>timers := filter (\<lambda>(j, k). j \<noteq> i) (timers s)\<rparr>))"

fun run1 :: "event list \<Rightarrow> state \<Rightarrow> state" where
  "run1 [] s = s"
| "run1 (e # es) s = run1 es (step1 e s)"

inductive reachable1 :: "state \<Rightarrow> bool" where
  reachable1_init: "reachable1 init"
| reachable1_step: "reachable1 s \<Longrightarrow> reachable1 (step1 e s)"

subsection \<open>Predicates used in the statements\<close>

definition scoresNonneg :: "state \<Rightarrow> bool" where
  "scoresNonneg s \<longleftrightarrow> (\<forall>a\<in>set (players s). 0 \<le> score (snd a))"

text \<open>The timers that are live, and the ones held in the three handle variables.\<close>

definition liveTimers :: "state \<Rightarrow> nat set" where
  "liveTimers s = fst ` set (timers s)"

definition heldTimers :: "state \<Rightarrow> nat set" where
  "heldTimers s =
     set_option (gameLoopInterval s) \<union> set_option (treasureSpawnInterval s) \<union>
     set_option (countdownInterval s)"

text \<open>The handler runs that call \<^verbatim>\<open>startGame\<close>: a join while no game is in
  progress, and the restart timeout when a connected player is left.\<close>

fun startsRound :: "event \<Rightarrow> state \<Rightarrow> bool" where
  "startsRound (JoinGame i playerName rn rx rz d) s = (\<not> gameInProgress s)"
| "startsRound (Fire i d ids) s =
     (map_of (timers s) i = Some RestartT \<and>
      filter (\<lambda>(key, p). key \<in> set ids) (players s) \<noteq> [])"
| "startsRound (Move i x y z) s = False"
| "startsRound (Disconnect i) s = False"

fun joinOf :: "sid \<Rightarrow> event \<Rightarrow> bool" where
  "joinOf j (JoinGame i playerName rn rx rz d) = (i = j)"
| "joinOf j (Move i x y z) = False"
| "joinOf j (Disconnect i) = False"
| "joinOf j (Fire i d ids) = False"

subsection \<open>Concrete runs\<close>

text \<open>Draws that put a player and a treasure at the origin.\<close>

definition d0 :: draws where
  "d0 = \<lparr>now = 0, r_id = 0, r_x = 0.5, r_z = 0.5\<rparr>"

text \<open>Ann joins the empty, idle server: a round starts with the timers 0 (tick),
  1 (spawn) and 2 (countdown).\<close>

definition started :: state where
  "started = step (JoinGame ''A'' ''Ann'' 0 0.5 0.5 d0) init"

text \<open>The first tick of Ann's round: she stands on the only item and collects it.\<close>

definition scored :: state where
  "scored = step (Fire 0 d0 []) started"

text \<open>Draws for a second item, at (0.5, 0.5, 0.5), and the round with both items.\<close>

definition d1 :: draws where
  "d1 = \<lparr>now = 2000, r_id = 0.25, r_x = 0.51, r_z = 0.51\<rparr>"

definition crowded :: state where
  "crowded = step (Fire 1 d1 []) started"

text \<open>Nineteen more spawns fill the arena.\<close>

definition full20 :: state where
  "full20 = run (replicate 19 (Fire 1 d0 [])) started"

text \<open>The last second of Ann's round, and the state after it: the round is over and
  the restart timeout 3 is pending.\<close>

definition lastSecond :: state where
  "lastSecond = run (replicate 59 (Fire 2 d0 [])) started"

definition ended :: state where
  "ended = step (Fire 2 d0 []) lastSecond"

text \<open>While the restart timeout 3 is pending Bob joins, which starts a round with
  the timers 4, 5 and 6; then the timeout fires and starts another one over it, with
  the timers 7, 8 and 9 in the handle variables.\<close>

definition rejoined :: state where
  "rejoined = step (JoinGame ''B'' ''Bob'' 0 0.5 0.5 d0) ended"

definition doubled :: state where
  "doubled = step (Fire 3 d0 [''A'', ''B'']) rejoined"

text \<open>Both players leave; the timers 4, 5 and 6 are still live. After 59 firings of
  the countdown 6 the timer shows 1.\<close>

definition deserted :: state where
  "deserted = run [Disconnect ''A'', Disconnect ''B''] doubled"

definition desertedLast :: state where
  "desertedLast = run (replicate 59 (Fire 6 d0 [])) deserted"

text \<open>Bob's round instead runs for a second and a tick, in which Ann, first in the
  iteration order, collects the item; then the timeout of the round before fires.\<close>

definition advanced :: state where
  "advanced = run [Fire 6 d0 [], Fire 4 d0 []] rejoined"

definition restarted :: state where
  "restarted = step (Fire 3 d0 [''A'', ''B'']) advanced"

text \<open>The doubled round runs out on the countdown 9: the game is over, and the
  tick 4 is still live.\<close>

definition doubledOver :: state where
  "doubledOver = run (replicate 60 (Fire 9 d0 [])) doubled"

text \<open>Ann, the only player, leaves during the pause after her round; then Bob
  joins.\<close>

definition abandoned :: state where
  "abandoned = step (Disconnect ''A'') ended"

definition newcomer :: state where
  "newcomer = step (JoinGame ''B'' ''Bob'' 0 0.5 0.5 d0) abandoned"

text \<open>Two players: Bob joins Ann's round at (4, 0.5, 0), out of reach of the item at
  the origin. An item is spawned where Bob stands, and a tick gives each player one
  point; a second item for Bob and a second tick put Bob ahead.\<close>

definition dB :: draws where
  "dB = \<lparr>now = 4000, r_id = 0.75, r_x = 0.58, r_z = 0.5\<rparr>"

definition tiedTrace :: "event list" where
  "tiedTrace =
     [JoinGame ''A'' ''Ann'' 0 0.5 0.5 d0, JoinGame ''B'' ''Bob'' 0 0.9 0.5 d0,
      Fire 1 dB [], Fire 0 d0 []]"

definition aheadTrace :: "event list" where
  "aheadTrace = tiedTrace @ [Fire 1 dB [], Fire 0 d0 []]"

definition tiedLast :: state where
  "tiedLast = run (tiedTrace @ replicate 59 (Fire 2 d0 [])) init"

definition aheadLast :: state where
  "aheadLast = run (aheadTrace @ replicate 59 (Fire 2 d0 [])) init"

text \<open>The run that ends with no player and the countdown 6 still live, on the first
  listing.\<close>

definition desertedLast1 :: state where
  "desertedLast1 =
     run1 (JoinGame ''A'' ''Ann'' 0 0.5 0.5 d0 # replicate 60 (Fire 2 d0 []) @
           [JoinGame ''B'' ''Bob'' 0 0.5 0.5 d0, Fire 3 d0 [''A'', ''B''],
            Disconnect ''A'', Disconnect ''B''] @ replicate 59 (Fire 6 d0 [])) init"

section \<open>Properties\<close>

subsection \<open>The collision test over the reals\<close>

lemma collides_code [code]: "collides p t \<longleftrightarrow> (px p - tx t)\<^sup>2 + (pz p - tz t)\<^sup>2 < 9/4"
proof -
  have "sqrt x < 3/2 \<longleftrightarrow> x < 9/4" for x :: real
  proof -
    have "sqrt x < sqrt (9/4) \<longleftrightarrow> x < 9/4" by (rule real_sqrt_less_iff)
    moreover have "sqrt (9/4) = (3/2::real)" by (simp add: real_sqrt_divide)
    ultimately show ?thesis by simp
  qed
  from this [of "(px p - tx t)\<^sup>2 + (pz p - tz t)\<^sup>2"] show ?thesis by (simp add: collides_def distance_def)
qed

subsection \<open>Facts about the tick\<close>

lemma forEachLoop_length: "length (snd (forEachLoop k len p ts)) \<le> length ts"
proof (induction k len p ts rule: forEachLoop.induct)
  case (1 k len p ts)
  show ?case
    using "1.IH" by (subst forEachLoop.simps) (auto intro: order_trans)
qed

lemma forEachLoop_set: "set (snd (forEachLoop k len p ts)) \<subseteq> set ts"
proof (induction k len p ts rule: forEachLoop.induct)
  case (1 k len p ts)
  have "set (take k ts @ drop (k + 1) ts) \<subseteq> set ts"
    by (auto dest: in_set_takeD in_set_dropD)
  with "1.IH" show ?case
    by (subst forEachLoop.simps) (auto simp del: set_append)
qed

lemma forEachLoop_score:
  "score (fst (forEachLoop k len p ts)) =
     score p + int (length ts) - int (length (snd (forEachLoop k len p ts)))"
proof (induction k len p ts rule: forEachLoop.induct)
  case (1 k len p ts)
  show ?case
    using "1.IH" by (subst (1 2) forEachLoop.simps) (auto simp: min_def)
qed

lemma forEachLoop_score_le: "score p \<le> score (fst (forEachLoop k len p ts))"
  using forEachLoop_score [of k len p ts] forEachLoop_length [of k len p ts] by simp

lemma forEachLoop_frame: "\<exists>n. fst (forEachLoop k len p ts) = p\<lparr>score := n\<rparr>"
proof (induction k len p ts rule: forEachLoop.induct)
  case (1 k len p ts)
  have base: "\<exists>n. p = p\<lparr>score := n\<rparr>"
    by (rule exI [of _ "score p"]) simp
  show ?case
    using "1.IH" base by (subst forEachLoop.simps) auto
qed

lemma collisions_Cons:
  "collisions ((i, p) # ps) ts =
     ((i, fst (forEachLoop 0 (length ts) p ts)) #
        fst (collisions ps (snd (forEachLoop 0 (length ts) p ts))),
      snd (collisions ps (snd (forEachLoop 0 (length ts) p ts))))"
  by (simp add: case_prod_beta)

lemma collisions_length: "length (snd (collisions ps ts)) \<le> length ts"
proof (induction ps arbitrary: ts)
  case Nil
  show ?case by simp
next
  case (Cons a ps)
  obtain i p where a: "a = (i, p)" by (cases a)
  have "length (snd (collisions ps (snd (forEachLoop 0 (length ts) p ts))))
          \<le> length (snd (forEachLoop 0 (length ts) p ts))"
    by (rule Cons.IH)
  also have "\<dots> \<le> length ts" by (rule forEachLoop_length)
  finally show ?case unfolding a collisions_Cons by simp
qed

lemma collisions_set: "set (snd (collisions ps ts)) \<subseteq> set ts"
proof (induction ps arbitrary: ts)
  case Nil
  show ?case by simp
next
  case (Cons a ps)
  obtain i p where a: "a = (i, p)" by (cases a)
  have "set (snd (collisions ps (snd (forEachLoop 0 (length ts) p ts))))
          \<subseteq> set (snd (forEachLoop 0 (length ts) p ts))"
    by (rule Cons.IH)
  also have "\<dots> \<subseteq> set ts" by (rule forEachLoop_set)
  finally show ?case unfolding a collisions_Cons by simp
qed

lemma collisions_keys: "map fst (fst (collisions ps ts)) = map fst ps"
proof (induction ps arbitrary: ts)
  case Nil
  show ?case by simp
next
  case (Cons a ps)
  obtain i p where a: "a = (i, p)" by (cases a)
  show ?case unfolding a collisions_Cons by (simp add: Cons.IH)
qed

lemma collisions_scores:
  "list_all2 (\<lambda>a b. fst b = fst a \<and> score (snd a) \<le> score (snd b)) ps (fst (collisions ps ts))"
proof (induction ps arbitrary: ts)
  case Nil
  show ?case by simp
next
  case (Cons a ps)
  obtain i p where a: "a = (i, p)" by (cases a)
  show ?case unfolding a collisions_Cons
    by (simp add: Cons.IH forEachLoop_score_le)
qed

lemma collisions_total:
  "(\<Sum>a\<leftarrow>fst (collisions ps ts). score (snd a)) =
     (\<Sum>a\<leftarrow>ps. score (snd a)) + int (length ts) - int (length (snd (collisions ps ts)))"
proof (induction ps arbitrary: ts)
  case Nil
  show ?case by simp
next
  case (Cons a ps)
  obtain i p where a: "a = (i, p)" by (cases a)
  show ?case unfolding a collisions_Cons
    using forEachLoop_score [of 0 "length ts" p ts]
    by (simp add: Cons.IH)
qed

lemma collisions_nonneg:
  assumes "\<forall>a\<in>set ps. 0 \<le> score (snd a)"
  shows "\<forall>a\<in>set (fst (collisions ps ts)). 0 \<le> score (snd a)"
proof
  fix b assume "b \<in> set (fst (collisions ps ts))"
  then obtain n where n: "n < length (fst (collisions ps ts))" "b = fst (collisions ps ts) ! n"
    by (auto simp: in_set_conv_nth)
  have l: "length ps = length (fst (collisions ps ts))"
    using collisions_scores [of ps ts] by (rule list_all2_lengthD)
  have "score (snd (ps ! n)) \<le> score (snd b)"
    using collisions_scores [of ps ts] n l by (auto simp: list_all2_conv_all_nth)
  moreover have "0 \<le> score (snd (ps ! n))" using assms n l by simp
  ultimately show "0 \<le> score (snd b)" by simp
qed

subsection \<open>What each function leaves alone\<close>

lemma clearInterval_frame [simp]:
  "players (clearInterval h s) = players s"
  "treasures (clearInterval h s) = treasures s"
  "gameInProgress (clearInterval h s) = gameInProgress s"
  "gameTimer (clearInterval h s) = gameTimer s"
  "emitted (clearInterval h s) = emitted s"
  "nextTimer (clearInterval h s) = nextTimer s"
  "gameLoopInterval (clearInterval h s) = gameLoopInterval s"
  "treasureSpawnInterval (clearInterval h s) = treasureSpawnInterval s"
  "countdownInterval (clearInterval h s) = countdownInterval s"
  by (simp_all add: clearInterval_def split: option.splits)

lemma startGame_fields:
  "gameInProgress (startGame d s) = True"
  "gameTimer (startGame d s) = 60"
  "treasures (startGame d s) =
     [\<lparr>tid = (now d, r_id d), tx = (r_x d - 0.5) * 50, ty = 0.5, tz = (r_z d - 0.5) * 50\<rparr>]"
  "players (startGame d s) = map (\<lambda>(i, p). (i, p\<lparr>score := 0\<rparr>)) (players s)"
  "emitted (startGame d s) = emitted s"
  "timers (startGame d s) =
     timers s @ [(nextTimer s, GameLoopT), (nextTimer s + 1, SpawnT), (nextTimer s + 2, CountdownT)]"
  by (simp_all add: startGame_def setTimer_def spawnTreasure_def Let_def)

lemma endGame_fields:
  "gameInProgress (endGame s) = False"
  "gameTimer (endGame s) = gameTimer s"
  "treasures (endGame s) = treasures s"
  "players (endGame s) = players s"
  "emitted (endGame s) = emitted s @ [gameOverPayload (determineWinner (players s))]"
  by (simp_all add: endGame_def setTimer_def Let_def)

lemma gameLoop_fields:
  "players (gameLoop s) = fst (collisions (players s) (treasures s))"
  "treasures (gameLoop s) = snd (collisions (players s) (treasures s))"
  "gameInProgress (gameLoop s) = gameInProgress s"
  "gameTimer (gameLoop s) = gameTimer s"
  "timers (gameLoop s) = timers s"
  by (simp_all add: gameLoop_def case_prod_beta)

lemma countdown_fields:
  "players (countdown s) = players s"
  "treasures (countdown s) = treasures s"
  by (simp_all add: countdown_def Let_def endGame_fields)

lemma restart_treasures: "length (treasures (restart d ids s)) \<le> max 1 (length (treasures s))"
  by (simp add: restart_def Let_def startGame_fields)

lemma joinGame_treasures: "length (treasures (joinGame i n rn rx rz d s)) \<le> max 1 (length (treasures s))"
  by (simp add: joinGame_def Let_def startGame_fields)

lemma disconnect_treasures: "length (treasures (disconnect i s)) \<le> length (treasures s)"
  by (simp add: disconnect_def Let_def)

lemma move_treasures: "treasures (move i x y z s) = treasures s"
  by (simp add: move_def split: option.splits)

lemma spawnTreasure_length:
  "length (treasures (spawnTreasure d s)) =
     (if length (treasures s) \<ge> 20 then length (treasures s) else length (treasures s) + 1)"
  by (simp add: spawnTreasure_def)

lemma step_treasures:
  assumes "length (treasures s) \<le> 20"
  shows "length (treasures (step e s)) \<le> 20"
proof (cases e)
  case (JoinGame i n rn rx rz d)
  then show ?thesis using assms joinGame_treasures [of i n rn rx rz d s] by simp
next
  case (Move i x y z)
  then show ?thesis using assms by (simp add: move_treasures)
next
  case (Disconnect i)
  then show ?thesis using assms disconnect_treasures [of i s] by simp
next
  case (Fire i d ids)
  show ?thesis
  proof (cases "map_of (timers s) i")
    case None
    then show ?thesis using assms Fire by simp
  next
    case (Some k)
    show ?thesis
    proof (cases k)
      case GameLoopT
      then show ?thesis
        using assms Fire Some collisions_length [of "players s" "treasures s"]
        by (simp add: gameLoop_fields)
    next
      case SpawnT
      then show ?thesis using assms Fire Some by (simp add: spawnTreasure_length)
    next
      case CountdownT
      then show ?thesis using assms Fire Some by (simp add: countdown_fields)
    next
      case RestartT
      then show ?thesis
        using assms Fire Some
          restart_treasures [of d ids "s\<lparr>timers := filter (\<lambda>(j, k). j \<noteq> i) (timers s)\<rparr>"]
        by simp
    qed
  qed
qed

lemma reachable_treasures: "reachable s \<Longrightarrow> length (treasures s) \<le> 20"
  by (induction rule: reachable.induct) (simp_all add: init_def step_treasures)

lemma reachable_run: "reachable s \<Longrightarrow> reachable (run es s)"
  by (induction es arbitrary: s) (auto intro: reachable_step)

subsection \<open>Scores stay non-negative\<close>

lemma update_set: "set (AList.update k v ps) \<subseteq> insert (k, v) (set ps)"
  by (induction ps) auto

lemma delete_set: "set (AList.delete k ps) \<subseteq> set ps"
  by (auto simp: AList.delete_eq)

lemma startGame_nonneg: "scoresNonneg (startGame d s)"
  by (auto simp: scoresNonneg_def startGame_fields)

lemma step_nonneg:
  assumes "scoresNonneg s"
  shows "scoresNonneg (step e s)"
proof (cases e)
  case (JoinGame i n rn rx rz d)
  have "scoresNonneg (s\<lparr>players := AList.update i (newPlayer i n rn rx rz) (players s)\<rparr>)"
    using assms update_set [of i "newPlayer i n rn rx rz" "players s"]
    by (auto simp: scoresNonneg_def newPlayer_def)
  then show ?thesis
    using JoinGame startGame_nonneg
    by (simp add: joinGame_def Let_def scoresNonneg_def)
next
  case (Move i x y z)
  show ?thesis
  proof (cases "map_of (players s) i")
    case None
    then show ?thesis using assms Move by (simp add: move_def)
  next
    case (Some p)
    then have "(i, p) \<in> set (players s)" by (rule map_of_SomeD)
    then have "0 \<le> score p" using assms by (auto simp: scoresNonneg_def)
    then show ?thesis
      using assms Move Some update_set [of i "p\<lparr>px := x, py := y, pz := z\<rparr>" "players s"]
      by (auto simp: move_def scoresNonneg_def)
  qed
next
  case (Disconnect i)
  then show ?thesis
    using assms delete_set [of i "players s"]
    by (auto simp: disconnect_def Let_def scoresNonneg_def)
next
  case (Fire i d ids)
  show ?thesis
  proof (cases "map_of (timers s) i")
    case None
    then show ?thesis using assms Fire by simp
  next
    case (Some k)
    show ?thesis
    proof (cases k)
      case GameLoopT
      then show ?thesis
        using assms Fire Some collisions_nonneg [of "players s" "treasures s"]
        by (simp add: scoresNonneg_def gameLoop_fields)
    next
      case SpawnT
      then show ?thesis using assms Fire Some by (simp add: scoresNonneg_def spawnTreasure_def)
    next
      case CountdownT
      then show ?thesis using assms Fire Some by (simp add: scoresNonneg_def countdown_fields)
    next
      case RestartT
      then show ?thesis
        using assms Fire Some startGame_nonneg
        by (auto simp: restart_def Let_def scoresNonneg_def)
    qed
  qed
qed

lemma reachable_nonneg: "reachable s \<Longrightarrow> scoresNonneg s"
  by (induction rule: reachable.induct) (simp_all add: step_nonneg, simp add: init_def scoresNonneg_def)

subsection \<open>Evaluating concrete runs\<close>

lemmas handler_defs = joinGame_def newPlayer_def startGame_def setTimer_def spawnTreasure_def
  countdown_def endGame_def clearInterval_def restart_def disconnect_def move_def gameLoop_def
  determineWinner_def gameOverPayload_def getLeaderboard_def sort_by_def Let_def

lemma started_eq:
  "started =
     \<lparr>players = [(''A'', \<lparr>pid = ''A'', name = ''Ann'', px = 0, py = 1 / 2, pz = 0, score = 0\<rparr>)],
      treasures = [\<lparr>tid = (0, 0), tx = 0, ty = 1 / 2, tz = 0\<rparr>],
      gameInProgress = True, gameTimer = 60, countdownInterval = Some 2,
      gameLoopInterval = Some 0, treasureSpawnInterval = Some 1,
      timers = [(0, GameLoopT), (1, SpawnT), (2, CountdownT)], nextTimer = 3,
      emitted =
        [GameJoined ''A''
           [(''A'', \<lparr>pid = ''A'', name = ''Ann'', px = 0, py = 1 / 2, pz = 0, score = 0\<rparr>)]
           [\<lparr>tid = (0, 0), tx = 0, ty = 1 / 2, tz = 0\<rparr>] 60 [(''Ann'', 0)]]\<rparr>"
  by (simp add: started_def init_def d0_def handler_defs)

lemma reachable_started: "reachable started"
  unfolding started_def by (intro reachable_step reachable_init)

lemma reachable_full20: "reachable full20"
  unfolding full20_def by (intro reachable_run reachable_started)

lemma full20_length: "length (treasures full20) = 20"
  unfolding full20_def started_eq by (simp add: spawnTreasure_def numeral_eq_Suc)

lemma lastSecond_eq: "lastSecond = started\<lparr>gameTimer := 1\<rparr>"
  unfolding lastSecond_def started_eq by (simp add: countdown_def Let_def numeral_eq_Suc)

lemma reachable_lastSecond: "reachable lastSecond"
  unfolding lastSecond_def by (intro reachable_run reachable_started)

lemma ended_eq:
  "ended =
     \<lparr>players = [(''A'', \<lparr>pid = ''A'', name = ''Ann'', px = 0, py = 1 / 2, pz = 0, score = 0\<rparr>)],
      treasures = [\<lparr>tid = (0, 0), tx = 0, ty = 1 / 2, tz = 0\<rparr>],
      gameInProgress = False, gameTimer = 0, countdownInterval = Some 2,
      gameLoopInterval = Some 0, treasureSpawnInterval = Some 1,
      timers = [(3, RestartT)], nextTimer = 4,
      emitted =
        [GameJoined ''A''
           [(''A'', \<lparr>pid = ''A'', name = ''Ann'', px = 0, py = 1 / 2, pz = 0, score = 0\<rparr>)]
           [\<lparr>tid = (0, 0), tx = 0, ty = 1 / 2, tz = 0\<rparr>] 60 [(''Ann'', 0)],
         GameOver ''Ann'' 0]\<rparr>"
  unfolding ended_def lastSecond_eq started_eq by (simp add: handler_defs)

lemma reachable_ended: "reachable ended"
  unfolding ended_def by (intro reachable_step reachable_lastSecond)

lemma scored_eq:
  "scored =
     started\<lparr>players := [(''A'', \<lparr>pid = ''A'', name = ''Ann'', px = 0, py = 1 / 2, pz = 0, score = 1\<rparr>)],
       treasures := [],
       emitted := emitted started @
         [GameState [(''A'', \<lparr>pid = ''A'', name = ''Ann'', px = 0, py = 1 / 2, pz = 0, score = 1\<rparr>)]
            [] 60 [(''Ann'', 1)]]\<rparr>"
  unfolding scored_def started_eq
  by (simp add: handler_defs forEachLoop.simps collides_code)

lemma reachable_scored: "reachable scored"
  unfolding scored_def by (intro reachable_step reachable_started)

lemma crowded_eq:
  "crowded =
     started\<lparr>treasures := [\<lparr>tid = (0, 0), tx = 0, ty = 1 / 2, tz = 0\<rparr>,
                            \<lparr>tid = (2000, 1 / 4), tx = 1 / 2, ty = 1 / 2, tz = 1 / 2\<rparr>]\<rparr>"
  unfolding crowded_def started_eq by (simp add: spawnTreasure_def d1_def)

lemma reachable_crowded: "reachable crowded"
  unfolding crowded_def by (intro reachable_step reachable_started)

lemma rejoined_eq:
  "rejoined =
     \<lparr>players = [(''A'', \<lparr>pid = ''A'', name = ''Ann'', px = 0, py = 1 / 2, pz = 0, score = 0\<rparr>),
                 (''B'', \<lparr>pid = ''B'', name = ''Bob'', px = 0, py = 1 / 2, pz = 0, score = 0\<rparr>)],
      treasures = [\<lparr>tid = (0, 0), tx = 0, ty = 1 / 2, tz = 0\<rparr>],
      gameInProgress = True, gameTimer = 60, countdownInterval = Some 6,
      gameLoopInterval = Some 4, treasureSpawnInterval = Some 5,
      timers = [(3, RestartT), (4, GameLoopT), (5, SpawnT), (6, CountdownT)], nextTimer = 7,
      emitted = emitted ended @
        [GameJoined ''B''
           [(''A'', \<lparr>pid = ''A'', name = ''Ann'', px = 0, py = 1 / 2, pz = 0, score = 0\<rparr>),
            (''B'', \<lparr>pid = ''B'', name = ''Bob'', px = 0, py = 1 / 2, pz = 0, score = 0\<rparr>)]
           [\<lparr>tid = (0, 0), tx = 0, ty = 1 / 2, tz = 0\<rparr>] 60 [(''Ann'', 0), (''Bob'', 0)]]\<rparr>"
  unfolding rejoined_def ended_eq by (simp add: d0_def handler_defs)

lemma reachable_rejoined: "reachable rejoined"
  unfolding rejoined_def by (intro reachable_step reachable_ended)

lemma doubled_eq:
  "doubled =
     rejoined\<lparr>countdownInterval := Some 9, gameLoopInterval := Some 7,
       treasureSpawnInterval := Some 8,
       timers := [(4, GameLoopT), (5, SpawnT), (6, CountdownT),
                  (7, GameLoopT), (8, SpawnT), (9, CountdownT)],
       nextTimer := 10\<rparr>"
  unfolding doubled_def rejoined_eq by (simp add: d0_def handler_defs)

lemma reachable_doubled: "reachable doubled"
  unfolding doubled_def by (intro reachable_step reachable_rejoined)

lemma deserted_eq:
  "deserted =
     doubled\<lparr>players := [], treasures := [], gameInProgress := False,
       timers := [(4, GameLoopT), (5, SpawnT), (6, CountdownT)]\<rparr>"
  unfolding deserted_def doubled_eq rejoined_eq by (simp add: handler_defs)

lemma reachable_deserted: "reachable deserted"
  unfolding deserted_def by (intro reachable_run reachable_doubled)

lemma desertedLast_eq: "desertedLast = deserted\<lparr>gameTimer := 1\<rparr>"
  unfolding desertedLast_def deserted_eq doubled_eq rejoined_eq
  by (simp add: countdown_def Let_def numeral_eq_Suc)

lemma reachable_desertedLast: "reachable desertedLast"
  unfolding desertedLast_def by (intro reachable_run reachable_deserted)

lemma advanced_eq:
  "advanced =
     rejoined\<lparr>players :=
         [(''A'', \<lparr>pid = ''A'', name = ''Ann'', px = 0, py = 1 / 2, pz = 0, score = 1\<rparr>),
          (''B'', \<lparr>pid = ''B'', name = ''Bob'', px = 0, py = 1 / 2, pz = 0, score = 0\<rparr>)],
       treasures := [], gameTimer := 59,
       emitted := emitted rejoined @
         [GameState
            [(''A'', \<lparr>pid = ''A'', name = ''Ann'', px = 0, py = 1 / 2, pz = 0, score = 1\<rparr>),
             (''B'', \<lparr>pid = ''B'', name = ''Bob'', px = 0, py = 1 / 2, pz = 0, score = 0\<rparr>)]
            [] 59 [(''Ann'', 1), (''Bob'', 0)]]\<rparr>"
  unfolding advanced_def rejoined_eq
  by (simp add: handler_defs forEachLoop.simps collides_code)

lemma restarted_fields:
  "gameTimer restarted = 60"
  "map (score \<circ> snd) (players restarted) = [0, 0]"
  "length (treasures restarted) = 1"
  "timers restarted =
     [(4, GameLoopT), (5, SpawnT), (6, CountdownT), (7, GameLoopT), (8, SpawnT), (9, CountdownT)]"
  unfolding restarted_def advanced_eq rejoined_eq
  by (simp_all add: d0_def handler_defs)

lemma doubledOver_fields:
  "gameInProgress doubledOver = False"
  "timers doubledOver = [(4, GameLoopT), (5, SpawnT), (6, CountdownT), (10, RestartT)]"
  "players doubledOver = players rejoined"
  "treasures doubledOver = treasures rejoined"
  unfolding doubledOver_def doubled_eq rejoined_eq
  by (simp_all add: handler_defs numeral_eq_Suc)

lemma reachable_doubledOver: "reachable doubledOver"
  unfolding doubledOver_def by (intro reachable_run reachable_doubled)

lemma abandoned_eq:
  "abandoned = ended\<lparr>players := [], treasures := []\<rparr>"
  unfolding abandoned_def ended_eq by (simp add: handler_defs)

lemma newcomer_fields:
  "gameInProgress newcomer = True"
  "timers newcomer = [(3, RestartT), (4, GameLoopT), (5, SpawnT), (6, CountdownT)]"
  "map fst (players newcomer) = [''B'']"
  "timers (step (Fire 3 d0 [''B'']) newcomer) =
     [(4, GameLoopT), (5, SpawnT), (6, CountdownT), (7, GameLoopT), (8, SpawnT), (9, CountdownT)]"
  unfolding newcomer_def abandoned_eq ended_eq
  by (simp_all add: d0_def handler_defs)

subsection \<open>The item cap\<close>

text \<open>
  C7. In every reachable state the live items number at most 20; \<^verbatim>\<open>spawnTreasure\<close>
  leaves a state with 20 items as it is; and every handler run keeps the bound.
\<close>

theorem treasure_population_cap:
  "(reachable s \<longrightarrow> length (treasures s) \<le> 20) \<and>
   (length (treasures s) = 20 \<longrightarrow> spawnTreasure d s = s) \<and>
   (length (treasures s) \<le> 20 \<longrightarrow> length (treasures (step e s)) \<le> 20)"
  by (simp add: reachable_treasures step_treasures spawnTreasure_def)

theorem treasure_population_cap_witness:
  "length (treasures full20) = 20 \<and> spawnTreasure d0 full20 = full20 \<and>
   length (treasures (step (Fire 1 d0 []) full20)) \<le> 20"
  using treasure_population_cap [of full20 d0 "Fire 1 d0 []"] reachable_full20 full20_length
  by simp

subsection \<open>The round start on a join\<close>

lemma update_key_in: "i \<in> fst ` set (AList.update i v ps)"
  by (simp add: dom_update)

text \<open>
  C9. A \<^verbatim>\<open>joinGame\<close> that arrives while no game is in progress starts a round: the
  game is in progress, the timer is exactly 60, every registered player (the
  joining one among them) has score 0, and the item list holds exactly one item,
  the one \<^verbatim>\<open>startGame\<close> spawns after clearing the list.
\<close>

theorem join_starts_round:
  assumes "\<not> gameInProgress s"
  shows "gameInProgress (step (JoinGame i n rn rx rz d) s) \<and>
         gameTimer (step (JoinGame i n rn rx rz d) s) = 60 \<and>
         length (treasures (step (JoinGame i n rn rx rz d) s)) = 1 \<and>
         i \<in> fst ` set (players (step (JoinGame i n rn rx rz d) s)) \<and>
         (\<forall>a\<in>set (players (step (JoinGame i n rn rx rz d) s)). score (snd a) = 0)"
proof -
  let ?s1 = "s\<lparr>players := AList.update i (newPlayer i n rn rx rz) (players s)\<rparr>"
  have j: "step (JoinGame i n rn rx rz d) s =
        (startGame d ?s1)\<lparr>emitted := emitted (startGame d ?s1) @
          [GameJoined i (players (startGame d ?s1)) (treasures (startGame d ?s1))
             (gameTimer (startGame d ?s1)) (getLeaderboard (players (startGame d ?s1)))]\<rparr>"
    using assms by (simp add: joinGame_def Let_def)
  have "i \<in> fst ` set (AList.update i (newPlayer i n rn rx rz) (players s))"
    by (rule update_key_in)
  then have "i \<in> fst ` set (players (startGame d ?s1))"
    by (force simp: startGame_fields)
  then show ?thesis
    unfolding j by (auto simp: startGame_fields)
qed

theorem join_starts_round_witness:
  "\<not> gameInProgress init \<and> players init = [] \<and>
   gameInProgress started \<and> gameTimer started = 60 \<and> length (treasures started) = 1 \<and>
   map fst (players started) = [''A''] \<and> map (score \<circ> snd) (players started) = [0]"
proof -
  have idle: "\<not> gameInProgress init" by (simp add: init_def)
  note r = join_starts_round [OF idle, of "''A''" "''Ann''" 0 "0.5" "0.5" d0, folded started_def]
  have "map fst (players started) = [''A'']" "map (score \<circ> snd) (players started) = [0]"
    by (simp_all add: started_eq)
  with r idle show ?thesis by (simp add: init_def)
qed

subsection \<open>The winner\<close>

lemma winnerLoop_no_better:
  "\<forall>a\<in>set ps. score (snd a) \<le> h \<Longrightarrow> winnerLoop ps w0 h = w0"
  by (induction ps w0 h rule: winnerLoop.induct) auto

lemma winnerLoop_first_max:
  assumes "\<exists>a\<in>set ps. h < score (snd a)"
  shows "\<exists>pre w post. ps = pre @ w # post \<and> winnerLoop ps w0 h = Some (snd w) \<and>
           h < score (snd w) \<and>
           (\<forall>a\<in>set pre. score (snd a) < score (snd w)) \<and>
           (\<forall>a\<in>set post. score (snd a) \<le> score (snd w))"
  using assms
proof (induction ps w0 h rule: winnerLoop.induct)
  case (1 w0 h)
  then show ?case by simp
next
  case (2 i p ps w0 h)
  show ?case
  proof (cases "h < score p")
    case True
    show ?thesis
    proof (cases "\<exists>a\<in>set ps. score p < score (snd a)")
      case True
      from "2.IH"(1) [OF \<open>h < score p\<close> True]
      obtain pre w post where r: "ps = pre @ w # post"
        "winnerLoop ps (Some p) (score p) = Some (snd w)" "score p < score (snd w)"
        "\<forall>a\<in>set pre. score (snd a) < score (snd w)"
        "\<forall>a\<in>set post. score (snd a) \<le> score (snd w)"
        by blast
      have "(i, p) # ps = ((i, p) # pre) @ w # post" using r(1) by simp
      moreover have "winnerLoop ((i, p) # ps) w0 h = Some (snd w)"
        using \<open>h < score p\<close> r(2) by simp
      moreover have "h < score (snd w)" using \<open>h < score p\<close> r(3) by simp
      moreover have "\<forall>a\<in>set ((i, p) # pre). score (snd a) < score (snd w)"
        using r(3,4) by simp
      ultimately show ?thesis using r(5) by blast
    next
      case False
      then have le: "\<forall>a\<in>set ps. score (snd a) \<le> score p" by auto
      then have "winnerLoop ps (Some p) (score p) = Some p" by (rule winnerLoop_no_better)
      then have "winnerLoop ((i, p) # ps) w0 h = Some (snd (i, p))"
        using \<open>h < score p\<close> by simp
      moreover have "(i, p) # ps = [] @ (i, p) # ps" by simp
      ultimately show ?thesis using le \<open>h < score p\<close>
        by (intro exI [of _ "[]"] exI [of _ "(i, p)"] exI [of _ ps]) simp
    qed
  next
    case False
    with "2.prems" have ex: "\<exists>a\<in>set ps. h < score (snd a)" by auto
    from "2.IH"(2) [OF False ex]
    obtain pre w post where r: "ps = pre @ w # post"
      "winnerLoop ps w0 h = Some (snd w)" "h < score (snd w)"
      "\<forall>a\<in>set pre. score (snd a) < score (snd w)"
      "\<forall>a\<in>set post. score (snd a) \<le> score (snd w)"
      by blast
    have "(i, p) # ps = ((i, p) # pre) @ w # post" using r(1) by simp
    moreover have "winnerLoop ((i, p) # ps) w0 h = Some (snd w)"
      using False r(2) by simp
    moreover have "\<forall>a\<in>set ((i, p) # pre). score (snd a) < score (snd w)"
      using False r(3,4) by simp
    ultimately show ?thesis using r(3,5) by blast
  qed
qed

lemma determineWinner_first_max:
  assumes "scoresNonneg s" "players s \<noteq> []"
  shows "\<exists>pre w post. players s = pre @ w # post \<and>
           determineWinner (players s) = Some (snd w) \<and>
           (\<forall>a\<in>set pre. score (snd a) < score (snd w)) \<and>
           (\<forall>a\<in>set post. score (snd a) \<le> score (snd w))"
proof -
  obtain a where "a \<in> set (players s)" using assms(2) by (cases "players s") auto
  moreover from this have "- 1 < score (snd a)" using assms(1) by (auto simp: scoresNonneg_def)
  ultimately have "\<exists>a\<in>set (players s). - 1 < score (snd a)" by blast
  from winnerLoop_first_max [OF this, of None] show ?thesis
    unfolding determineWinner_def by blast
qed

text \<open>
  C10. When the round ends in a reachable state with at least one registered player,
  the winner variable holds a registered player, and the notification carries that
  player's name and score: the branch of the sentinel is not taken. When every score
  is 0 the winner is the first player of the iteration order.
\<close>

theorem winner_is_registered_player:
  assumes "reachable s" "players s \<noteq> []"
  shows "(\<exists>a\<in>set (players s).
            determineWinner (players s) = Some (snd a) \<and>
            emitted (endGame s) = emitted s @ [GameOver (name (snd a)) (score (snd a))] \<and>
            gameOverName (determineWinner (players s)) = name (snd a)) \<and>
         ((\<forall>a\<in>set (players s). score (snd a) = 0) \<longrightarrow>
            determineWinner (players s) = Some (snd (hd (players s))))"
proof -
  have nn: "scoresNonneg s" using assms(1) by (rule reachable_nonneg)
  from determineWinner_first_max [OF nn assms(2)]
  obtain pre w post where r: "players s = pre @ w # post"
    "determineWinner (players s) = Some (snd w)"
    "\<forall>a\<in>set pre. score (snd a) < score (snd w)"
    by blast
  have "w \<in> set (players s)" using r(1) by simp
  moreover have "emitted (endGame s) = emitted s @ [GameOver (name (snd w)) (score (snd w))]"
    by (simp add: endGame_fields r(2) gameOverPayload_def)
  moreover have "gameOverName (determineWinner (players s)) = name (snd w)"
    by (simp add: r(2) gameOverName_def)
  ultimately have first: "\<exists>a\<in>set (players s).
      determineWinner (players s) = Some (snd a) \<and>
      emitted (endGame s) = emitted s @ [GameOver (name (snd a)) (score (snd a))] \<and>
      gameOverName (determineWinner (players s)) = name (snd a)"
    using r(2) by blast
  have "determineWinner (players s) = Some (snd (hd (players s)))"
    if z: "\<forall>a\<in>set (players s). score (snd a) = 0"
  proof -
    have "pre = []"
    proof (cases pre)
      case Nil
      then show ?thesis .
    next
      case (Cons b bs)
      then have "score (snd b) < score (snd w)" using r(3) by simp
      moreover have "score (snd b) = 0" "score (snd w) = 0" using z r(1) Cons by simp_all
      ultimately show ?thesis by simp
    qed
    then show ?thesis using r(1,2) by simp
  qed
  with first show ?thesis by blast
qed

theorem winner_is_registered_player_witness:
  "players lastSecond \<noteq> [] \<and> map (score \<circ> snd) (players lastSecond) = [0] \<and>
   determineWinner (players lastSecond) = Some (snd (hd (players lastSecond))) \<and>
   emitted (endGame lastSecond) = emitted lastSecond @ [GameOver ''Ann'' 0]"
proof -
  have ne: "players lastSecond \<noteq> []" by (simp add: lastSecond_eq started_eq)
  have z: "\<forall>a\<in>set (players lastSecond). score (snd a) = 0"
    by (simp add: lastSecond_eq started_eq)
  note r = winner_is_registered_player [OF reachable_lastSecond ne]
  from r z have "determineWinner (players lastSecond) = Some (snd (hd (players lastSecond)))"
    by blast
  moreover from r have "\<exists>a\<in>set (players lastSecond).
      emitted (endGame lastSecond) =
        emitted lastSecond @ [GameOver (name (snd a)) (score (snd a))]"
    by blast
  then have "emitted (endGame lastSecond) = emitted lastSecond @ [GameOver ''Ann'' 0]"
    by (simp add: lastSecond_eq started_eq)
  ultimately show ?thesis using ne by (simp add: lastSecond_eq started_eq)
qed

subsection \<open>The round-over notification in the two listings\<close>

lemma endGame1_fields:
  "gameInProgress (endGame1 s) = False"
  "players (endGame1 s) = players s"
  "emitted (endGame1 s) =
     emitted s @ [GameOverName (gameOverName (determineWinner (players s)))]"
  by (simp_all add: endGame1_def setTimer_def Let_def)

lemma step1_players: "players (step1 e s) = players (step e s)"
proof (cases e)
  case (Fire i d ids)
  then show ?thesis
    by (simp add: countdown_def countdown1_def Let_def endGame_fields endGame1_fields
        split: option.splits timer_kind.splits)
qed simp_all

lemma reachable1_nonneg: "reachable1 s \<Longrightarrow> scoresNonneg s"
proof (induction rule: reachable1.induct)
  case reachable1_init
  show ?case by (simp add: init_def scoresNonneg_def)
next
  case (reachable1_step s e)
  from reachable1_step.IH have "scoresNonneg (step e s)" by (rule step_nonneg)
  then show ?case by (simp add: scoresNonneg_def step1_players)
qed

lemma reachable1_run1: "reachable1 s \<Longrightarrow> reachable1 (run1 es s)"
  by (induction es arbitrary: s) (auto intro: reachable1_step)

lemmas run_defs = init_def d0_def dB_def handler_defs countdown1_def endGame1_def
  gameOverName_def forEachLoop.simps collides_code numeral_eq_Suc

lemma tiedLast_fields:
  "players tiedLast =
     [(''A'', \<lparr>pid = ''A'', name = ''Ann'', px = 0, py = 1 / 2, pz = 0, score = 1\<rparr>),
      (''B'', \<lparr>pid = ''B'', name = ''Bob'', px = 4, py = 1 / 2, pz = 0, score = 1\<rparr>)]"
  "map_of (timers tiedLast) 2 = Some CountdownT"
  "gameTimer tiedLast = 1"
  unfolding tiedLast_def tiedTrace_def by (simp_all add: run_defs)

lemma aheadLast_fields:
  "players aheadLast =
     [(''A'', \<lparr>pid = ''A'', name = ''Ann'', px = 0, py = 1 / 2, pz = 0, score = 1\<rparr>),
      (''B'', \<lparr>pid = ''B'', name = ''Bob'', px = 4, py = 1 / 2, pz = 0, score = 2\<rparr>)]"
  "map_of (timers aheadLast) 2 = Some CountdownT"
  "gameTimer aheadLast = 1"
  unfolding aheadLast_def aheadTrace_def tiedTrace_def by (simp_all add: run_defs)

lemma desertedLast1_fields:
  "players desertedLast1 = []"
  "map_of (timers desertedLast1) 6 = Some CountdownT"
  "gameTimer desertedLast1 = 1"
  unfolding desertedLast1_def by (simp_all add: run_defs)

lemma reachable_tiedLast: "reachable tiedLast"
  unfolding tiedLast_def by (intro reachable_run reachable_init)

lemma reachable_aheadLast: "reachable aheadLast"
  unfolding aheadLast_def by (intro reachable_run reachable_init)

lemma reachable1_tiedLast: "reachable1 tiedLast"
proof -
  have "run1 (tiedTrace @ replicate 59 (Fire 2 d0 [])) init = tiedLast"
    unfolding tiedLast_def tiedTrace_def by (simp add: run_defs)
  then show ?thesis using reachable1_run1 [OF reachable1_init] by metis
qed

lemma reachable1_aheadLast: "reachable1 aheadLast"
proof -
  have "run1 (aheadTrace @ replicate 59 (Fire 2 d0 [])) init = aheadLast"
    unfolding aheadLast_def aheadTrace_def tiedTrace_def by (simp add: run_defs)
  then show ?thesis using reachable1_run1 [OF reachable1_init] by metis
qed

lemma reachable1_lastSecond: "reachable1 lastSecond"
proof -
  have "run1 (JoinGame ''A'' ''Ann'' 0 0.5 0.5 d0 # replicate 59 (Fire 2 d0 [])) init =
      lastSecond"
    unfolding lastSecond_eq started_eq by (simp add: run_defs)
  then show ?thesis using reachable1_run1 [OF reachable1_init] by metis
qed

lemma reachable1_desertedLast1: "reachable1 desertedLast1"
  unfolding desertedLast1_def by (intro reachable1_run1 reachable1_init)

text \<open>
  C2, as the code has it. When the countdown fires with at most one second left the
  game is no longer in progress and one \<^verbatim>\<open>gameOver\<close> message is broadcast. The
  winner \<open>w\<close> is the player such that every player before \<open>w\<close> in the iteration order
  has a strictly lower score and every player after \<open>w\<close> has at most the same score.
  In a reachable state of the second listing the message carries the name and the
  score of \<open>w\<close>, or \<^verbatim>\<open>'No one'\<close> and 0 with no player registered; in a reachable
  state of the first listing it carries the name of \<open>w\<close> alone, or \<^verbatim>\<open>'No one'\<close>.
\<close>

theorem round_over_announces_winner:
  assumes "map_of (timers s) i = Some CountdownT" "gameTimer s \<le> 1"
  shows "(reachable s \<longrightarrow>
            \<not> gameInProgress (step (Fire i d ids) s) \<and>
            (players s = [] \<longrightarrow>
               emitted (step (Fire i d ids) s) = emitted s @ [GameOver ''No one'' 0]) \<and>
            (players s \<noteq> [] \<longrightarrow>
               (\<exists>pre w post. players s = pre @ w # post \<and>
                  (\<forall>a\<in>set pre. score (snd a) < score (snd w)) \<and>
                  (\<forall>a\<in>set post. score (snd a) \<le> score (snd w)) \<and>
                  emitted (step (Fire i d ids) s) =
                    emitted s @ [GameOver (name (snd w)) (score (snd w))]))) \<and>
         (reachable1 s \<longrightarrow>
            \<not> gameInProgress (step1 (Fire i d ids) s) \<and>
            (players s = [] \<longrightarrow>
               emitted (step1 (Fire i d ids) s) = emitted s @ [GameOverName ''No one'']) \<and>
            (players s \<noteq> [] \<longrightarrow>
               (\<exists>pre w post. players s = pre @ w # post \<and>
                  (\<forall>a\<in>set pre. score (snd a) < score (snd w)) \<and>
                  (\<forall>a\<in>set post. score (snd a) \<le> score (snd w)) \<and>
                  emitted (step1 (Fire i d ids) s) =
                    emitted s @ [GameOverName (name (snd w))])))"
proof -
  have st: "step (Fire i d ids) s = endGame (s\<lparr>gameTimer := gameTimer s - 1\<rparr>)"
    using assms by (simp add: countdown_def Let_def)
  have st1: "step1 (Fire i d ids) s = endGame1 (s\<lparr>gameTimer := gameTimer s - 1\<rparr>)"
    using assms by (simp add: countdown1_def Let_def)
  have em: "emitted (step (Fire i d ids) s) =
      emitted s @ [gameOverPayload (determineWinner (players s))]"
    unfolding st by (simp add: endGame_fields)
  have em1: "emitted (step1 (Fire i d ids) s) =
      emitted s @ [GameOverName (gameOverName (determineWinner (players s)))]"
    unfolding st1 by (simp add: endGame1_fields)
  have over: "\<not> gameInProgress (step (Fire i d ids) s)"
    unfolding st by (simp add: endGame_fields)
  have over1: "\<not> gameInProgress (step1 (Fire i d ids) s)"
    unfolding st1 by (simp add: endGame1_fields)
  have none: "emitted (step (Fire i d ids) s) = emitted s @ [GameOver ''No one'' 0]"
    if "players s = []"
    using that em by (simp add: determineWinner_def gameOverPayload_def)
  have none1: "emitted (step1 (Fire i d ids) s) = emitted s @ [GameOverName ''No one'']"
    if "players s = []"
    using that em1 by (simp add: determineWinner_def gameOverName_def)
  have some: "\<exists>pre w post. players s = pre @ w # post \<and>
      (\<forall>a\<in>set pre. score (snd a) < score (snd w)) \<and>
      (\<forall>a\<in>set post. score (snd a) \<le> score (snd w)) \<and>
      emitted (step (Fire i d ids) s) = emitted s @ [GameOver (name (snd w)) (score (snd w))] \<and>
      emitted (step1 (Fire i d ids) s) = emitted s @ [GameOverName (name (snd w))]"
    if nn: "scoresNonneg s" and ne: "players s \<noteq> []"
  proof -
    from determineWinner_first_max [OF nn ne]
    obtain pre w post where r: "players s = pre @ w # post"
      "determineWinner (players s) = Some (snd w)"
      "\<forall>a\<in>set pre. score (snd a) < score (snd w)"
      "\<forall>a\<in>set post. score (snd a) \<le> score (snd w)"
      by blast
    have "emitted (step (Fire i d ids) s) =
        emitted s @ [GameOver (name (snd w)) (score (snd w))]"
      using em r(2) by (simp add: gameOverPayload_def)
    moreover have "emitted (step1 (Fire i d ids) s) = emitted s @ [GameOverName (name (snd w))]"
      using em1 r(2) by (simp add: gameOverName_def)
    ultimately show ?thesis using r(1,3,4) by blast
  qed
  have second: "\<not> gameInProgress (step (Fire i d ids) s) \<and>
      (players s = [] \<longrightarrow>
         emitted (step (Fire i d ids) s) = emitted s @ [GameOver ''No one'' 0]) \<and>
      (players s \<noteq> [] \<longrightarrow>
         (\<exists>pre w post. players s = pre @ w # post \<and>
            (\<forall>a\<in>set pre. score (snd a) < score (snd w)) \<and>
            (\<forall>a\<in>set post. score (snd a) \<le> score (snd w)) \<and>
            emitted (step (Fire i d ids) s) =
              emitted s @ [GameOver (name (snd w)) (score (snd w))]))"
    if "reachable s"
    using over none some [OF reachable_nonneg [OF that]] by blast
  have first: "\<not> gameInProgress (step1 (Fire i d ids) s) \<and>
      (players s = [] \<longrightarrow>
         emitted (step1 (Fire i d ids) s) = emitted s @ [GameOverName ''No one'']) \<and>
      (players s \<noteq> [] \<longrightarrow>
         (\<exists>pre w post. players s = pre @ w # post \<and>
            (\<forall>a\<in>set pre. score (snd a) < score (snd w)) \<and>
            (\<forall>a\<in>set post. score (snd a) \<le> score (snd w)) \<and>
            emitted (step1 (Fire i d ids) s) =
              emitted s @ [GameOverName (name (snd w))]))"
    if "reachable1 s"
    using over1 none1 some [OF reachable1_nonneg [OF that]] by blast
  from first second show ?thesis by blast
qed

text \<open>The winner the theorem determines, at a tie (the first player) and with the
  second player ahead.\<close>

lemma first_max_tied:
  assumes "[(''A'', a), (''B'', b)] = pre @ w # post" "score a = score b"
    "\<forall>x\<in>set pre. score (snd x) < score (snd w)"
  shows "snd w = a"
proof (cases pre)
  case Nil
  then show ?thesis using assms(1) by auto
next
  case (Cons x xs)
  then have x: "x = (''A'', a)" and e: "[(''B'', b)] = xs @ w # post" using assms(1) by simp_all
  then have "w = (''B'', b)" by (cases xs) simp_all
  then show ?thesis using assms(2,3) Cons x by simp
qed

lemma first_max_second:
  assumes "[(''A'', a), (''B'', b)] = pre @ w # post" "score a < score b"
    "\<forall>x\<in>set post. score (snd x) \<le> score (snd w)"
  shows "snd w = b"
proof (cases pre)
  case Nil
  then have "w = (''A'', a)" "post = [(''B'', b)]" using assms(1) by simp_all
  then show ?thesis using assms(2,3) by simp
next
  case (Cons x xs)
  then have "[(''B'', b)] = xs @ w # post" using assms(1) by simp
  then have "w = (''B'', b)" by (cases xs) simp_all
  then show ?thesis by simp
qed

theorem round_over_announces_winner_witness:
  "map (score \<circ> snd) (players tiedLast) = [1, 1] \<and>
   emitted (step (Fire 2 d0 []) tiedLast) = emitted tiedLast @ [GameOver ''Ann'' 1] \<and>
   emitted (step1 (Fire 2 d0 []) tiedLast) = emitted tiedLast @ [GameOverName ''Ann''] \<and>
   map (score \<circ> snd) (players aheadLast) = [1, 2] \<and>
   emitted (step (Fire 2 d0 []) aheadLast) = emitted aheadLast @ [GameOver ''Bob'' 2] \<and>
   emitted (step1 (Fire 2 d0 []) aheadLast) = emitted aheadLast @ [GameOverName ''Bob''] \<and>
   \<not> gameInProgress (step (Fire 2 d0 []) aheadLast) \<and>
   \<not> gameInProgress (step1 (Fire 2 d0 []) aheadLast) \<and>
   players desertedLast = [] \<and>
   emitted (step (Fire 6 d0 []) desertedLast) = emitted desertedLast @ [GameOver ''No one'' 0] \<and>
   players desertedLast1 = [] \<and>
   emitted (step1 (Fire 6 d0 []) desertedLast1) =
     emitted desertedLast1 @ [GameOverName ''No one'']"
proof -
  let ?A = "\<lparr>pid = ''A'', name = ''Ann'', px = 0, py = 1 / 2, pz = 0, score = 1\<rparr>"
  let ?B1 = "\<lparr>pid = ''B'', name = ''Bob'', px = 4, py = 1 / 2, pz = 0, score = 1\<rparr>"
  let ?B2 = "\<lparr>pid = ''B'', name = ''Bob'', px = 4, py = 1 / 2, pz = 0, score = 2\<rparr>"
  note t = round_over_announces_winner [OF tiedLast_fields(2), of d0 "[]"]
  note a = round_over_announces_winner [OF aheadLast_fields(2), of d0 "[]"]
  have e: "players desertedLast = []"
    and c: "map_of (timers desertedLast) 6 = Some CountdownT" "gameTimer desertedLast \<le> 1"
    by (simp_all add: desertedLast_eq deserted_eq doubled_eq rejoined_eq)
  note n = round_over_announces_winner [OF c, of d0 "[]"]
  note n1 = round_over_announces_winner [OF desertedLast1_fields(2), of d0 "[]"]
  have tne: "players tiedLast \<noteq> []" and ane: "players aheadLast \<noteq> []"
    by (simp_all add: tiedLast_fields aheadLast_fields)
  have t2: "emitted (step (Fire 2 d0 []) tiedLast) = emitted tiedLast @ [GameOver ''Ann'' 1]"
  proof -
    from t reachable_tiedLast tne tiedLast_fields(3)
    obtain pre w post where r: "players tiedLast = pre @ w # post"
      "\<forall>x\<in>set pre. score (snd x) < score (snd w)"
      "emitted (step (Fire 2 d0 []) tiedLast) =
         emitted tiedLast @ [GameOver (name (snd w)) (score (snd w))]"
      by auto
    have "snd w = ?A"
      using first_max_tied [of ?A ?B1 pre w post] r(1,2) by (simp add: tiedLast_fields)
    with r(3) show ?thesis by simp
  qed
  have t1: "emitted (step1 (Fire 2 d0 []) tiedLast) = emitted tiedLast @ [GameOverName ''Ann'']"
  proof -
    from t reachable1_tiedLast tne tiedLast_fields(3)
    obtain pre w post where r: "players tiedLast = pre @ w # post"
      "\<forall>x\<in>set pre. score (snd x) < score (snd w)"
      "emitted (step1 (Fire 2 d0 []) tiedLast) = emitted tiedLast @ [GameOverName (name (snd w))]"
      by auto
    have "snd w = ?A"
      using first_max_tied [of ?A ?B1 pre w post] r(1,2) by (simp add: tiedLast_fields)
    with r(3) show ?thesis by simp
  qed
  have a2: "emitted (step (Fire 2 d0 []) aheadLast) = emitted aheadLast @ [GameOver ''Bob'' 2]"
  proof -
    from a reachable_aheadLast ane aheadLast_fields(3)
    obtain pre w post where r: "players aheadLast = pre @ w # post"
      "\<forall>x\<in>set post. score (snd x) \<le> score (snd w)"
      "emitted (step (Fire 2 d0 []) aheadLast) =
         emitted aheadLast @ [GameOver (name (snd w)) (score (snd w))]"
      by auto
    have "snd w = ?B2"
      using first_max_second [of ?A ?B2 pre w post] r(1,2) by (simp add: aheadLast_fields)
    with r(3) show ?thesis by simp
  qed
  have a1: "emitted (step1 (Fire 2 d0 []) aheadLast) = emitted aheadLast @ [GameOverName ''Bob'']"
  proof -
    from a reachable1_aheadLast ane aheadLast_fields(3)
    obtain pre w post where r: "players aheadLast = pre @ w # post"
      "\<forall>x\<in>set post. score (snd x) \<le> score (snd w)"
      "emitted (step1 (Fire 2 d0 []) aheadLast) =
         emitted aheadLast @ [GameOverName (name (snd w))]"
      by auto
    have "snd w = ?B2"
      using first_max_second [of ?A ?B2 pre w post] r(1,2) by (simp add: aheadLast_fields)
    with r(3) show ?thesis by simp
  qed
  have o: "\<not> gameInProgress (step (Fire 2 d0 []) aheadLast)"
    "\<not> gameInProgress (step1 (Fire 2 d0 []) aheadLast)"
    using a reachable_aheadLast reachable1_aheadLast aheadLast_fields(3) by auto
  have n2: "emitted (step (Fire 6 d0 []) desertedLast) =
      emitted desertedLast @ [GameOver ''No one'' 0]"
    using n reachable_desertedLast e by blast
  have n1': "emitted (step1 (Fire 6 d0 []) desertedLast1) =
      emitted desertedLast1 @ [GameOverName ''No one'']"
    using n1 reachable1_desertedLast1 desertedLast1_fields(1,3) by auto
  have "map (score \<circ> snd) (players tiedLast) = [1, 1]"
    "map (score \<circ> snd) (players aheadLast) = [1, 2]"
    by (simp_all add: tiedLast_fields aheadLast_fields)
  with t2 t1 a2 a1 o e n2 n1' desertedLast1_fields(1) show ?thesis by blast
qed

text \<open>The first listing's notification does not depend on the winner's score: Ann
  wins one round with 0 points and another with 1, and the message is the same.\<close>

theorem first_listing_omits_score_counterexample:
  "reachable1 lastSecond \<and> reachable1 tiedLast \<and>
   map_of (timers lastSecond) 2 = Some CountdownT \<and> gameTimer lastSecond = 1 \<and>
   map_of (timers tiedLast) 2 = Some CountdownT \<and> gameTimer tiedLast = 1 \<and>
   map (score \<circ> snd) (players lastSecond) = [0] \<and>
   map (score \<circ> snd) (players tiedLast) = [1, 1] \<and>
   emitted (step1 (Fire 2 d0 []) lastSecond) = emitted lastSecond @ [GameOverName ''Ann''] \<and>
   emitted (step1 (Fire 2 d0 []) tiedLast) = emitted tiedLast @ [GameOverName ''Ann'']"
proof -
  have "map_of (timers lastSecond) 2 = Some CountdownT" "gameTimer lastSecond = 1"
    "map (score \<circ> snd) (players lastSecond) = [0]"
    "emitted (step1 (Fire 2 d0 []) lastSecond) = emitted lastSecond @ [GameOverName ''Ann'']"
    by (simp_all add: lastSecond_eq started_eq countdown1_def endGame1_fields Let_def
        determineWinner_def gameOverName_def)
  moreover have "map (score \<circ> snd) (players tiedLast) = [1, 1]"
    "emitted (step1 (Fire 2 d0 []) tiedLast) = emitted tiedLast @ [GameOverName ''Ann'']"
    by (simp_all add: tiedLast_fields countdown1_def endGame1_fields Let_def
        determineWinner_def gameOverName_def)
  ultimately show ?thesis
    using reachable1_lastSecond reachable1_tiedLast tiedLast_fields(2,3) by blast
qed

text \<open>The two listings announce the same winner: the first listing's payload is the
  name field of the second's.\<close>

lemma gameOverName_payload:
  "gameOverPayload winner = GameOver n sc \<Longrightarrow> gameOverName winner = n"
  by (cases winner) (simp_all add: gameOverPayload_def gameOverName_def)

text \<open>The scenario of the specification, and a tie.\<close>

lemma determineWinner_scenario:
  "determineWinner
     [(''A'', \<lparr>pid = ''A'', name = ''Ann'', px = 0, py = 0, pz = 0, score = 3\<rparr>),
      (''B'', \<lparr>pid = ''B'', name = ''Bob'', px = 0, py = 0, pz = 0, score = 5\<rparr>)] =
   Some \<lparr>pid = ''B'', name = ''Bob'', px = 0, py = 0, pz = 0, score = 5\<rparr>"
  by (simp add: determineWinner_def)

lemma determineWinner_tie:
  "determineWinner
     [(''A'', \<lparr>pid = ''A'', name = ''Ann'', px = 0, py = 0, pz = 0, score = 5\<rparr>),
      (''B'', \<lparr>pid = ''B'', name = ''Bob'', px = 0, py = 0, pz = 0, score = 5\<rparr>)] =
   Some \<lparr>pid = ''A'', name = ''Ann'', px = 0, py = 0, pz = 0, score = 5\<rparr>"
  by (simp add: determineWinner_def)

subsection \<open>The leaderboard\<close>

lemma insort_by_score:
  "insort_by (\<lambda>a b. score b - score a) x ys = insort_key (\<lambda>p. - score p) x ys"
  by (induction ys) auto

lemma sort_by_score:
  "sort_by (\<lambda>a b. score b - score a) xs = sort_key (\<lambda>p. - score p) xs"
  by (induction xs) (simp_all add: sort_by_def insort_by_score)

lemma sorted_desc_take:
  assumes "sorted (map (\<lambda>p. - score p) ys)"
  shows "sorted_wrt (\<lambda>a b. snd a \<ge> snd b) (map (\<lambda>p. (name p, score p)) (take n ys))"
proof -
  have "sorted_wrt (\<lambda>a b. score a \<ge> score b) ys"
    using assms by (simp add: sorted_wrt_map)
  then have "sorted_wrt (\<lambda>a b. score a \<ge> score b) (take n ys)"
    by (rule sorted_wrt_take)
  then show ?thesis by (simp add: sorted_wrt_map)
qed

text \<open>
  C6. For every registry, the empty one included, the leaderboard has at most five
  entries, its scores are in descending order, and it is the projection to
  (name, score) of the first five of the rearrangement of all the players that is
  in descending order of score and keeps the players of equal score in their
  registry order. It is a function of the
  registry alone: \<open>getLeaderboard\<close> takes \<open>players\<close> and returns the list, so two
  calls on the same registry return the same list and the state is not touched.
\<close>

theorem leaderboard_top5_sorted_stable:
  "length (getLeaderboard ps) \<le> 5 \<and>
   sorted_wrt (\<lambda>a b. snd a \<ge> snd b) (getLeaderboard ps) \<and>
   (\<exists>ys. mset ys = mset (map snd ps) \<and>
         sorted_wrt (\<lambda>a b. score a \<ge> score b) ys \<and>
         (\<forall>k. filter (\<lambda>p. score p = k) ys = filter (\<lambda>p. score p = k) (map snd ps)) \<and>
         getLeaderboard ps = map (\<lambda>p. (name p, score p)) (take 5 ys)) \<and>
   getLeaderboard [] = []"
proof -
  let ?f = "\<lambda>p. - score p"
  let ?ys = "sort_key ?f (map snd ps)"
  have lb: "getLeaderboard ps = map (\<lambda>p. (name p, score p)) (take 5 ?ys)"
    by (simp add: getLeaderboard_def sort_by_score)
  have "length (getLeaderboard ps) \<le> 5" unfolding lb by simp
  moreover have "sorted_wrt (\<lambda>a b. snd a \<ge> snd b) (getLeaderboard ps)"
    unfolding lb by (rule sorted_desc_take) (rule sorted_sort_key)
  moreover have "filter (\<lambda>p. score p = k) ?ys = filter (\<lambda>p. score p = k) (map snd ps)" for k
    using sort_key_stable [of ?f "- k" "map snd ps"] by simp
  moreover have "mset ?ys = mset (map snd ps)" by simp
  moreover have "sorted_wrt (\<lambda>a b. score a \<ge> score b) ?ys"
    using sorted_sort_key [of ?f "map snd ps"] by (simp add: sorted_wrt_map)
  moreover have "getLeaderboard [] = []" by (simp add: getLeaderboard_def sort_by_def)
  ultimately show ?thesis using lb by blast
qed

theorem leaderboard_top5_sorted_stable_witness:
  "getLeaderboard
     [(''a'', \<lparr>pid = ''a'', name = ''P1'', px = 0, py = 0, pz = 0, score = 2\<rparr>),
      (''b'', \<lparr>pid = ''b'', name = ''P2'', px = 0, py = 0, pz = 0, score = 5\<rparr>),
      (''c'', \<lparr>pid = ''c'', name = ''P3'', px = 0, py = 0, pz = 0, score = 2\<rparr>),
      (''d'', \<lparr>pid = ''d'', name = ''P4'', px = 0, py = 0, pz = 0, score = 0\<rparr>),
      (''e'', \<lparr>pid = ''e'', name = ''P5'', px = 0, py = 0, pz = 0, score = 5\<rparr>),
      (''f'', \<lparr>pid = ''f'', name = ''P6'', px = 0, py = 0, pz = 0, score = 1\<rparr>)] =
   [(''P2'', 5), (''P5'', 5), (''P1'', 2), (''P3'', 2), (''P6'', 1)] \<and>
   length (getLeaderboard
     [(''a'', \<lparr>pid = ''a'', name = ''P1'', px = 0, py = 0, pz = 0, score = 2\<rparr>),
      (''b'', \<lparr>pid = ''b'', name = ''P2'', px = 0, py = 0, pz = 0, score = 5\<rparr>),
      (''c'', \<lparr>pid = ''c'', name = ''P3'', px = 0, py = 0, pz = 0, score = 2\<rparr>),
      (''d'', \<lparr>pid = ''d'', name = ''P4'', px = 0, py = 0, pz = 0, score = 0\<rparr>),
      (''e'', \<lparr>pid = ''e'', name = ''P5'', px = 0, py = 0, pz = 0, score = 5\<rparr>),
      (''f'', \<lparr>pid = ''f'', name = ''P6'', px = 0, py = 0, pz = 0, score = 1\<rparr>)]) \<le> 5"
  using leaderboard_top5_sorted_stable
    [of "[(''a'', \<lparr>pid = ''a'', name = ''P1'', px = 0, py = 0, pz = 0, score = 2\<rparr>),
      (''b'', \<lparr>pid = ''b'', name = ''P2'', px = 0, py = 0, pz = 0, score = 5\<rparr>),
      (''c'', \<lparr>pid = ''c'', name = ''P3'', px = 0, py = 0, pz = 0, score = 2\<rparr>),
      (''d'', \<lparr>pid = ''d'', name = ''P4'', px = 0, py = 0, pz = 0, score = 0\<rparr>),
      (''e'', \<lparr>pid = ''e'', name = ''P5'', px = 0, py = 0, pz = 0, score = 5\<rparr>),
      (''f'', \<lparr>pid = ''f'', name = ''P6'', px = 0, py = 0, pz = 0, score = 1\<rparr>)]"]
  by (simp add: getLeaderboard_def sort_by_def)

subsection \<open>Scores within a round\<close>

lemma collisions_lookup:
  "map_of (fst (collisions ps ts)) j = Some p' \<Longrightarrow>
     \<exists>p. map_of ps j = Some p \<and> score p \<le> score p'"
proof (induction ps arbitrary: ts)
  case Nil
  then show ?case by simp
next
  case (Cons a ps)
  obtain i p where a: "a = (i, p)" by (cases a)
  show ?case
  proof (cases "i = j")
    case True
    then show ?thesis
      using Cons.prems forEachLoop_score_le [of p 0 "length ts" ts]
      unfolding a collisions_Cons by auto
  next
    case False
    then show ?thesis
      using Cons.prems Cons.IH unfolding a collisions_Cons by auto
  qed
qed

lemma zeroed_lookup:
  "map_of (map (\<lambda>(i, p). (i, p\<lparr>score := 0\<rparr>)) ps) j = Some p' \<Longrightarrow> score p' = 0"
  by (induction ps) (auto split: if_splits)

lemma startGame_zero: "\<forall>a\<in>set (players (startGame d s)). score (snd a) = 0"
  by (auto simp: startGame_fields)

text \<open>
  C8, as the code has it. A handler run lowers the score of a player who stays
  registered only by setting it to 0, and only when the run starts a round or is a
  \<^verbatim>\<open>joinGame\<close> of that same connection, which stores a fresh record; every other run
  leaves the score as it was or raises it. Right after a run that starts a round
  every score is 0.
\<close>

theorem score_lowered_only_by_start_or_rejoin:
  "(map_of (players s) j = Some p \<and> map_of (players (step e s)) j = Some p' \<longrightarrow>
      score p \<le> score p' \<or> (score p' = 0 \<and> (startsRound e s \<or> joinOf j e))) \<and>
   (startsRound e s \<longrightarrow> (\<forall>a\<in>set (players (step e s)). score (snd a) = 0))"
proof -
  have mono: "score p \<le> score p' \<or> (score p' = 0 \<and> (startsRound e s \<or> joinOf j e))"
    if b: "map_of (players s) j = Some p" and a: "map_of (players (step e s)) j = Some p'"
  proof (cases e)
    case (JoinGame i n rn rx rz d)
    let ?s1 = "s\<lparr>players := AList.update i (newPlayer i n rn rx rz) (players s)\<rparr>"
    show ?thesis
    proof (cases "gameInProgress s")
      case False
      then have "players (step e s) = players (startGame d ?s1)"
        using JoinGame by (simp add: joinGame_def Let_def)
      then have "score p' = 0"
        using a zeroed_lookup [of "players ?s1" j p'] by (simp add: startGame_fields)
      then show ?thesis using False JoinGame by simp
    next
      case True
      then have ps: "players (step e s) = AList.update i (newPlayer i n rn rx rz) (players s)"
        using JoinGame by (simp add: joinGame_def Let_def)
      show ?thesis
      proof (cases "i = j")
        case True
        then have "p' = newPlayer i n rn rx rz" using a ps by (simp add: update_conv')
        then show ?thesis using True JoinGame by (simp add: newPlayer_def)
      next
        case False
        then have "p' = p" using a b ps by (simp add: update_conv')
        then show ?thesis by simp
      qed
    qed
  next
    case (Move i x y z)
    show ?thesis
    proof (cases "map_of (players s) i")
      case None
      then show ?thesis using a b Move by (simp add: move_def)
    next
      case (Some q)
      then show ?thesis
        using a b Move by (cases "i = j") (auto simp: move_def update_conv')
    qed
  next
    case (Disconnect i)
    have "map_of (AList.delete i (players s)) j = Some p'"
      using a Disconnect by (simp add: disconnect_def Let_def split: if_splits)
    then have "p' = p" using b by (cases "i = j") (simp_all add: delete_conv')
    then show ?thesis by simp
  next
    case (Fire i d ids)
    show ?thesis
    proof (cases "map_of (timers s) i")
      case None
      then show ?thesis using a b Fire by simp
    next
      case (Some k)
      show ?thesis
      proof (cases k)
        case GameLoopT
        then have "map_of (fst (collisions (players s) (treasures s))) j = Some p'"
          using a Fire Some by (simp add: gameLoop_fields)
        from collisions_lookup [OF this] b show ?thesis by simp
      next
        case SpawnT
        then show ?thesis using a b Fire Some by (simp add: spawnTreasure_def split: if_splits)
      next
        case CountdownT
        then show ?thesis using a b Fire Some by (simp add: countdown_fields)
      next
        case RestartT
        let ?s0 = "s\<lparr>timers := filter (\<lambda>(j, k). j \<noteq> i) (timers s)\<rparr>"
        let ?ps = "filter (\<lambda>(key, p). key \<in> set ids) (players s)"
        show ?thesis
        proof (cases "?ps = []")
          case True
          then have "players (step e s) = []"
            using Fire Some RestartT by (simp add: restart_def Let_def)
          then show ?thesis using a by simp
        next
          case False
          then have "players (step e s) = players (startGame d (?s0\<lparr>players := ?ps\<rparr>))"
            using Fire Some RestartT by (simp add: restart_def Let_def)
          then have "score p' = 0"
            using a zeroed_lookup [of ?ps j p'] by (simp add: startGame_fields)
          then show ?thesis using False Fire Some RestartT by simp
        qed
      qed
    qed
  qed
  have zero: "\<forall>a\<in>set (players (step e s)). score (snd a) = 0" if st: "startsRound e s"
  proof (cases e)
    case (JoinGame i n rn rx rz d)
    then show ?thesis
      using st startGame_zero by (simp add: joinGame_def Let_def)
  next
    case (Move i x y z)
    then show ?thesis using st by simp
  next
    case (Disconnect i)
    then show ?thesis using st by simp
  next
    case (Fire i d ids)
    then show ?thesis
      using st startGame_zero by (simp add: restart_def Let_def)
  qed
  from mono zero show ?thesis by blast
qed

theorem score_lowered_only_by_start_or_rejoin_witness:
  "map_of (players started) ''A'' =
     Some \<lparr>pid = ''A'', name = ''Ann'', px = 0, py = 1 / 2, pz = 0, score = 0\<rparr> \<and>
   map_of (players scored) ''A'' =
     Some \<lparr>pid = ''A'', name = ''Ann'', px = 0, py = 1 / 2, pz = 0, score = 1\<rparr> \<and>
   startsRound (Fire 3 d0 [''A'']) ended \<and>
   list_all (\<lambda>a. score (snd a) = 0) (players (step (Fire 3 d0 [''A'']) ended))"
proof -
  have a: "map_of (players started) ''A'' =
      Some \<lparr>pid = ''A'', name = ''Ann'', px = 0, py = 1 / 2, pz = 0, score = 0\<rparr>"
    by (simp add: started_eq)
  have b: "map_of (players (step (Fire 0 d0 []) started)) ''A'' =
      Some \<lparr>pid = ''A'', name = ''Ann'', px = 0, py = 1 / 2, pz = 0, score = 1\<rparr>"
    unfolding scored_def [symmetric] by (simp add: scored_eq started_eq)
  have c: "startsRound (Fire 3 d0 [''A'']) ended" by (simp add: ended_eq)
  note r1 = score_lowered_only_by_start_or_rejoin [of started "''A''" _ "Fire 0 d0 []"]
  note r2 = score_lowered_only_by_start_or_rejoin [of ended _ _ "Fire 3 d0 [''A'']"]
  from r2 c have "\<forall>a\<in>set (players (step (Fire 3 d0 [''A'']) ended)). score (snd a) = 0"
    by blast
  then have "list_all (\<lambda>a. score (snd a) = 0) (players (step (Fire 3 d0 [''A'']) ended))"
    by (simp add: list_all_iff)
  with a b c r1 show ?thesis unfolding scored_def by blast
qed

theorem rejoin_resets_score_counterexample:
  "gameInProgress scored \<and>
   map_of (players scored) ''A'' =
     Some \<lparr>pid = ''A'', name = ''Ann'', px = 0, py = 1 / 2, pz = 0, score = 1\<rparr> \<and>
   \<not> startsRound (JoinGame ''A'' ''Ann'' 0 0.5 0.5 d0) scored \<and>
   gameInProgress (step (JoinGame ''A'' ''Ann'' 0 0.5 0.5 d0) scored) \<and>
   gameTimer (step (JoinGame ''A'' ''Ann'' 0 0.5 0.5 d0) scored) = gameTimer scored \<and>
   timers (step (JoinGame ''A'' ''Ann'' 0 0.5 0.5 d0) scored) = timers scored \<and>
   map_of (players (step (JoinGame ''A'' ''Ann'' 0 0.5 0.5 d0) scored)) ''A'' =
     Some \<lparr>pid = ''A'', name = ''Ann'', px = 0, py = 1 / 2, pz = 0, score = 0\<rparr>"
  by (simp add: scored_eq started_eq joinGame_def newPlayer_def Let_def)

subsection \<open>What a tick collects\<close>

text \<open>What holds of every tick: the items left are among the items before, the
  scores rise in total by the number of items removed, and no player is added,
  removed, renamed or moved.\<close>

lemma tick_items_subset: "set (treasures (gameLoop s)) \<subseteq> set (treasures s)"
  by (simp add: gameLoop_fields collisions_set)

lemma tick_score_accounting:
  "(\<Sum>a\<leftarrow>players (gameLoop s). score (snd a)) =
     (\<Sum>a\<leftarrow>players s. score (snd a)) + int (length (treasures s)) -
       int (length (treasures (gameLoop s)))"
  by (simp add: gameLoop_fields collisions_total)

lemma collisions_frame:
  "map (\<lambda>a. (fst a, (snd a)\<lparr>score := 0\<rparr>)) (fst (collisions ps ts)) =
     map (\<lambda>a. (fst a, (snd a)\<lparr>score := 0\<rparr>)) ps"
proof (induction ps arbitrary: ts)
  case Nil
  show ?case by simp
next
  case (Cons a ps)
  obtain i p where a: "a = (i, p)" by (cases a)
  obtain n where "fst (forEachLoop 0 (length ts) p ts) = p\<lparr>score := n\<rparr>"
    using forEachLoop_frame by blast
  then show ?case unfolding a collisions_Cons by (simp add: Cons.IH)
qed

text \<open>The scenario of the specification: a player at the origin and an item at
  (0.5, 0.5, 0.5), at horizontal distance below 1.5; the tick gives the point and
  removes the item.\<close>

lemma tick_scenario:
  "collisions
     [(''A'', \<lparr>pid = ''A'', name = ''Ann'', px = 0, py = 0, pz = 0, score = 0\<rparr>)]
     [\<lparr>tid = (0, 0), tx = 1 / 2, ty = 1 / 2, tz = 1 / 2\<rparr>] =
   ([(''A'', \<lparr>pid = ''A'', name = ''Ann'', px = 0, py = 0, pz = 0, score = 1\<rparr>)], [])"
  by (simp add: forEachLoop.simps collides_code power2_eq_square)

lemma tick_players_frame:
  "map (\<lambda>a. (fst a, (snd a)\<lparr>score := 0\<rparr>)) (players (gameLoop s)) =
     map (\<lambda>a. (fst a, (snd a)\<lparr>score := 0\<rparr>)) (players s)"
  by (simp add: gameLoop_fields collisions_frame)

text \<open>
  C1, where the code departs from it. Ann stands at the origin in a running round
  with two items, one at the origin and one at (0.5, 0.5, 0.5), both within the
  radius. The tick collects the first at index 0 and removes it; the second moves to
  index 0, the loop goes on to index 1, which no longer exists, and the second item
  is never tested. After the tick Ann has one point and the second item is still
  live, within the radius of Ann.
\<close>

theorem tick_skips_item_after_a_collected_one:
  "reachable crowded \<and> gameInProgress crowded \<and>
   map_of (timers crowded) 0 = Some GameLoopT \<and>
   list_all (collides \<lparr>pid = ''A'', name = ''Ann'', px = 0, py = 1 / 2, pz = 0, score = 0\<rparr>)
     (treasures crowded) \<and>
   players (step (Fire 0 d0 []) crowded) =
     [(''A'', \<lparr>pid = ''A'', name = ''Ann'', px = 0, py = 1 / 2, pz = 0, score = 1\<rparr>)] \<and>
   treasures (step (Fire 0 d0 []) crowded) =
     [\<lparr>tid = (2000, 1 / 4), tx = 1 / 2, ty = 1 / 2, tz = 1 / 2\<rparr>] \<and>
   collides \<lparr>pid = ''A'', name = ''Ann'', px = 0, py = 1 / 2, pz = 0, score = 1\<rparr>
     \<lparr>tid = (2000, 1 / 4), tx = 1 / 2, ty = 1 / 2, tz = 1 / 2\<rparr>"
  using reachable_crowded
  by (simp add: crowded_eq started_eq gameLoop_def forEachLoop.simps collides_code
      power2_eq_square)

subsection \<open>Timers: cancelled ones stay cancelled\<close>

lemma liveTimers_update [simp]:
  "liveTimers (s\<lparr>timers := ts\<rparr>) = fst ` set ts"
  "liveTimers (s\<lparr>emitted := em\<rparr>) = liveTimers s"
  "liveTimers (s\<lparr>players := ps\<rparr>) = liveTimers s"
  "liveTimers (s\<lparr>treasures := tr\<rparr>) = liveTimers s"
  "liveTimers (s\<lparr>gameInProgress := b\<rparr>) = liveTimers s"
  "liveTimers (s\<lparr>gameTimer := n\<rparr>) = liveTimers s"
  "liveTimers (s\<lparr>nextTimer := m\<rparr>) = liveTimers s"
  "liveTimers (s\<lparr>gameLoopInterval := h\<rparr>) = liveTimers s"
  "liveTimers (s\<lparr>treasureSpawnInterval := h\<rparr>) = liveTimers s"
  "liveTimers (s\<lparr>countdownInterval := h\<rparr>) = liveTimers s"
  by (simp_all add: liveTimers_def)

lemma heldTimers_update [simp]:
  "heldTimers (s\<lparr>timers := ts\<rparr>) = heldTimers s"
  "heldTimers (s\<lparr>emitted := em\<rparr>) = heldTimers s"
  "heldTimers (s\<lparr>players := ps\<rparr>) = heldTimers s"
  "heldTimers (s\<lparr>treasures := tr\<rparr>) = heldTimers s"
  "heldTimers (s\<lparr>gameInProgress := b\<rparr>) = heldTimers s"
  "heldTimers (s\<lparr>gameTimer := n\<rparr>) = heldTimers s"
  "heldTimers (s\<lparr>nextTimer := m\<rparr>) = heldTimers s"
  by (simp_all add: heldTimers_def)

lemma clearInterval_live [simp]: "liveTimers (clearInterval h s) = liveTimers s - set_option h"
  by (cases h) (auto simp: clearInterval_def liveTimers_def)

lemma clearInterval_held [simp]: "heldTimers (clearInterval h s) = heldTimers s"
  by (simp add: heldTimers_def)

lemma spawnTreasure_timers [simp]:
  "liveTimers (spawnTreasure d s) = liveTimers s"
  "heldTimers (spawnTreasure d s) = heldTimers s"
  "nextTimer (spawnTreasure d s) = nextTimer s"
  by (simp_all add: spawnTreasure_def)

lemma setTimer_timers [simp]:
  "liveTimers (snd (setTimer k s)) = insert (nextTimer s) (liveTimers s)"
  "heldTimers (snd (setTimer k s)) = heldTimers s"
  "nextTimer (snd (setTimer k s)) = nextTimer s + 1"
  "fst (setTimer k s) = nextTimer s"
  by (simp_all add: setTimer_def liveTimers_def [of s])

lemma startGame_timers:
  "nextTimer (startGame d s) = nextTimer s + 3"
  "liveTimers (startGame d s) =
     liveTimers s \<union> {nextTimer s, nextTimer s + 1, nextTimer s + 2}"
  "heldTimers (startGame d s) = {nextTimer s, nextTimer s + 1, nextTimer s + 2}"
  by (auto simp: startGame_def setTimer_def spawnTreasure_def Let_def liveTimers_def
      heldTimers_def)

lemma endGame_timers:
  "nextTimer (endGame s) = nextTimer s + 1"
  "liveTimers (endGame s) = (liveTimers s - heldTimers s) \<union> {nextTimer s}"
  "heldTimers (endGame s) = heldTimers s"
  by (auto simp: endGame_def Let_def heldTimers_def [of s])

lemma disconnect_timers:
  "nextTimer (disconnect j s) = nextTimer s"
  "heldTimers (disconnect j s) = heldTimers s"
  "liveTimers (disconnect j s) =
     (if players (disconnect j s) = [] then liveTimers s - heldTimers s else liveTimers s)"
  by (auto simp: disconnect_def Let_def heldTimers_def [of s])

lemma gameLoop_timers:
  "nextTimer (gameLoop s) = nextTimer s"
  "heldTimers (gameLoop s) = heldTimers s"
  "liveTimers (gameLoop s) = liveTimers s"
  by (simp_all add: gameLoop_def case_prod_beta)

lemma countdown_timers:
  "nextTimer s \<le> nextTimer (countdown s)"
  "heldTimers (countdown s) = heldTimers s"
  "liveTimers (countdown s) \<subseteq> liveTimers s \<union> {nextTimer s}"
  by (auto simp: countdown_def Let_def endGame_timers)

lemma restart_timers:
  "nextTimer s \<le> nextTimer (restart d ids s)"
  "heldTimers (restart d ids s) \<subseteq> heldTimers s \<union> {nextTimer s ..< nextTimer (restart d ids s)}"
  "liveTimers (restart d ids s) \<subseteq> liveTimers s \<union> {nextTimer s ..< nextTimer (restart d ids s)}"
  by (auto simp: restart_def Let_def startGame_timers)

lemma joinGame_timers:
  "nextTimer s \<le> nextTimer (joinGame i n rn rx rz d s)"
  "heldTimers (joinGame i n rn rx rz d s)
     \<subseteq> heldTimers s \<union> {nextTimer s ..< nextTimer (joinGame i n rn rx rz d s)}"
  "liveTimers (joinGame i n rn rx rz d s)
     \<subseteq> liveTimers s \<union> {nextTimer s ..< nextTimer (joinGame i n rn rx rz d s)}"
  by (auto simp: joinGame_def Let_def startGame_timers)

lemma move_timers:
  "nextTimer (move i x y z s) = nextTimer s"
  "heldTimers (move i x y z s) = heldTimers s"
  "liveTimers (move i x y z s) = liveTimers s"
  by (simp_all add: move_def split: option.splits)

lemma step_timers:
  "nextTimer s \<le> nextTimer (step e s)"
  "heldTimers (step e s) \<subseteq> heldTimers s \<union> {nextTimer s ..< nextTimer (step e s)}"
  "liveTimers (step e s) \<subseteq> liveTimers s \<union> {nextTimer s ..< nextTimer (step e s)}"
proof -
  show "nextTimer s \<le> nextTimer (step e s)"
  proof (cases e)
    case (Fire i d ids)
    then show ?thesis
      using countdown_timers(1) [of s]
        restart_timers(1) [of "s\<lparr>timers := filter (\<lambda>(j, k). j \<noteq> i) (timers s)\<rparr>" d ids]
      by (simp add: gameLoop_timers split: option.splits timer_kind.splits)
  qed (simp_all add: joinGame_timers move_timers disconnect_timers)
  show "heldTimers (step e s) \<subseteq> heldTimers s \<union> {nextTimer s ..< nextTimer (step e s)}"
  proof (cases e)
    case (Fire i d ids)
    then show ?thesis
      using restart_timers(2) [of d ids "s\<lparr>timers := filter (\<lambda>(j, k). j \<noteq> i) (timers s)\<rparr>"]
      by (simp add: gameLoop_timers countdown_timers split: option.splits timer_kind.splits)
  qed (simp_all add: joinGame_timers move_timers disconnect_timers)
  show "liveTimers (step e s) \<subseteq> liveTimers s \<union> {nextTimer s ..< nextTimer (step e s)}"
  proof (cases e)
    case (JoinGame i n rn rx rz d)
    then show ?thesis by (simp add: joinGame_timers)
  next
    case (Move i x y z)
    then show ?thesis by (simp add: move_timers)
  next
    case (Disconnect i)
    then show ?thesis by (auto simp: disconnect_timers)
  next
    case (Fire i d ids)
    show ?thesis
    proof (cases "map_of (timers s) i")
      case None
      then show ?thesis using Fire by simp
    next
      case (Some k)
      show ?thesis
      proof (cases k)
        case GameLoopT
        then show ?thesis using Fire Some by (simp add: gameLoop_timers)
      next
        case SpawnT
        then show ?thesis using Fire Some by simp
      next
        case CountdownT
        then show ?thesis
          using Fire Some by (auto simp: countdown_def Let_def endGame_timers)
      next
        case RestartT
        have "fst ` set (filter (\<lambda>(j, k). j \<noteq> i) (timers s)) \<subseteq> liveTimers s"
          by (auto simp: liveTimers_def)
        then show ?thesis
          using Fire Some RestartT
            restart_timers(3) [of d ids "s\<lparr>timers := filter (\<lambda>(j, k). j \<noteq> i) (timers s)\<rparr>"]
          by auto
      qed
    qed
  qed
qed

lemma reachable_held_below: "reachable s \<Longrightarrow> \<forall>i\<in>heldTimers s. i < nextTimer s"
proof (induction rule: reachable.induct)
  case reachable_init
  show ?case by (simp add: init_def heldTimers_def)
next
  case (reachable_step s e)
  show ?case
  proof
    fix i assume "i \<in> heldTimers (step e s)"
    then have "i \<in> heldTimers s \<or> i < nextTimer (step e s)"
      using step_timers(2) [of e s] by auto
    then show "i < nextTimer (step e s)"
      using reachable_step.IH step_timers(1) [of s e] by auto
  qed
qed

lemma run_stays_cancelled:
  "i < nextTimer s \<Longrightarrow> i \<notin> liveTimers s \<Longrightarrow> i \<notin> liveTimers (run es s)"
proof (induction es arbitrary: s)
  case Nil
  then show ?case by simp
next
  case (Cons e es)
  have "i \<notin> liveTimers (step e s)"
    using Cons.prems step_timers(3) [of e s] by auto
  moreover have "i < nextTimer (step e s)"
    using Cons.prems(1) step_timers(1) [of s e] by simp
  ultimately show ?case using Cons.IH by simp
qed

lemma fire_cancelled: "i \<notin> liveTimers s \<Longrightarrow> step (Fire i d ids) s = s"
  by (simp add: liveTimers_def map_of_eq_None_iff [symmetric])

lemma endGame_cancels:
  assumes "\<forall>i\<in>heldTimers s. i < nextTimer s" "i \<in> heldTimers s"
  shows "i < nextTimer (endGame s)" "i \<notin> liveTimers (endGame s)"
  using assms by (auto simp: endGame_timers)

lemma disconnect_cancels:
  assumes "\<forall>i\<in>heldTimers s. i < nextTimer s" "i \<in> heldTimers s" "players (disconnect j s) = []"
  shows "i < nextTimer (disconnect j s)" "i \<notin> liveTimers (disconnect j s)"
  using assms by (auto simp: disconnect_timers)

lemma countdown_ends:
  assumes "map_of (timers s) c = Some CountdownT" "gameTimer s \<le> 1"
  shows "step (Fire c d ids) s = endGame (s\<lparr>gameTimer := gameTimer s - 1\<rparr>)"
  using assms by (simp add: countdown_def Let_def)

lemma round_end_cancels:
  assumes "reachable s" "map_of (timers s) c = Some CountdownT" "gameTimer s \<le> 1"
    "i \<in> heldTimers s"
  shows "i \<notin> liveTimers (run es (step (Fire c d ids) s))"
proof -
  let ?s = "s\<lparr>gameTimer := gameTimer s - 1\<rparr>"
  have b: "\<forall>i\<in>heldTimers ?s. i < nextTimer ?s"
    using reachable_held_below [OF assms(1)] by simp
  have h: "i \<in> heldTimers ?s" using assms(4) by simp
  show ?thesis
    unfolding countdown_ends [OF assms(2,3)]
    using endGame_cancels [OF b h] by (rule run_stays_cancelled)
qed

lemma last_disconnect_cancels:
  assumes "reachable s" "players (step (Disconnect j) s) = []" "i \<in> heldTimers s"
  shows "i \<notin> liveTimers (run es (step (Disconnect j) s))"
proof -
  have b: "\<forall>i\<in>heldTimers s. i < nextTimer s"
    using assms(1) by (rule reachable_held_below)
  have e: "players (disconnect j s) = []" using assms(2) by simp
  show ?thesis
    using disconnect_cancels [OF b assms(3) e] by (simp add: run_stays_cancelled)
qed


subsection \<open>Stale timers\<close>

text \<open>
  C3, as the code has it. There is no round generation: a timer is a handle and the
  callback it runs, and a round's timers are stopped by cancelling them. When the
  countdown ends a round in a reachable state, each timer held in the three handle
  variables (tick, spawn, countdown) is cancelled, and it is never live again,
  whatever handler runs follow, the start of new rounds among them: its firing
  leaves the state as it is.
\<close>

theorem ended_round_intervals_never_fire:
  assumes "reachable s" "map_of (timers s) c = Some CountdownT" "gameTimer s \<le> 1"
    "i \<in> heldTimers s"
  shows "i \<notin> liveTimers (run es (step (Fire c d ids) s)) \<and>
         step (Fire i d' ids') (run es (step (Fire c d ids) s)) =
           run es (step (Fire c d ids) s)"
proof -
  have n: "i \<notin> liveTimers (run es (step (Fire c d ids) s))"
    using assms by (rule round_end_cancels)
  from n fire_cancelled [OF n] show ?thesis by blast
qed

theorem ended_round_intervals_never_fire_witness:
  "map_of (timers lastSecond) 2 = Some CountdownT \<and> gameTimer lastSecond \<le> 1 \<and>
   heldTimers lastSecond = {0, 1, 2} \<and>
   step (Fire 0 d0 []) rejoined = rejoined \<and> step (Fire 1 d0 []) rejoined = rejoined \<and>
   step (Fire 2 d0 []) rejoined = rejoined"
proof -
  have a: "map_of (timers lastSecond) 2 = Some CountdownT" "gameTimer lastSecond \<le> 1"
    and h: "heldTimers lastSecond = {0, 1, 2}"
    by (auto simp: lastSecond_eq started_eq heldTimers_def)
  have r: "run [JoinGame ''B'' ''Bob'' 0 0.5 0.5 d0] (step (Fire 2 d0 []) lastSecond) = rejoined"
    by (simp add: rejoined_def ended_def)
  have "step (Fire i d0 []) rejoined = rejoined" if "i \<in> {0, 1, 2}" for i
    using ended_round_intervals_never_fire [OF reachable_lastSecond a, of i
        "[JoinGame ''B'' ''Bob'' 0 0.5 0.5 d0]" d0 "[]" d0 "[]"] that
    unfolding r h by blast
  then show ?thesis using a h by simp
qed

theorem stale_restart_timeout_counterexample:
  "map_of (timers ended) 3 = Some RestartT \<and> \<not> gameInProgress ended \<and>
   gameInProgress advanced \<and> gameTimer advanced = 59 \<and>
   map (score \<circ> snd) (players advanced) = [1, 0] \<and> treasures advanced = [] \<and>
   timers advanced = [(3, RestartT), (4, GameLoopT), (5, SpawnT), (6, CountdownT)] \<and>
   restarted = step (Fire 3 d0 [''A'', ''B'']) advanced \<and> restarted \<noteq> advanced \<and>
   gameTimer restarted = 60 \<and> map (score \<circ> snd) (players restarted) = [0, 0] \<and>
   length (treasures restarted) = 1 \<and>
   timers restarted =
     [(4, GameLoopT), (5, SpawnT), (6, CountdownT), (7, GameLoopT), (8, SpawnT), (9, CountdownT)]"
proof -
  have "map_of (timers ended) 3 = Some RestartT" "\<not> gameInProgress ended"
    by (simp_all add: ended_eq)
  moreover have "gameInProgress advanced" "gameTimer advanced = 59"
    "map (score \<circ> snd) (players advanced) = [1, 0]" "treasures advanced = []"
    "timers advanced = [(3, RestartT), (4, GameLoopT), (5, SpawnT), (6, CountdownT)]"
    by (simp_all add: advanced_eq rejoined_eq)
  moreover from this have "restarted \<noteq> advanced"
    using restarted_fields(1) by auto
  ultimately show ?thesis
    using restarted_fields restarted_def by blast
qed

subsection \<open>The last player leaves\<close>

lemma restart_without_players:
  assumes "players s = []" "map_of (timers s) r = Some RestartT"
  shows "step (Fire r d ids) s = s\<lparr>timers := filter (\<lambda>(i, k). i \<noteq> r) (timers s)\<rparr>"
proof -
  have "s\<lparr>timers := ts, players := []\<rparr> = s\<lparr>timers := ts\<rparr>" for ts
    using assms(1) by (cases s) simp
  then show ?thesis using assms by (simp add: restart_def Let_def)
qed

text \<open>
  C4, as the code has it. When a disconnect in a reachable state leaves no player
  registered, the game is no longer in progress, the item list is empty, and each
  timer held in the three handle variables (tick, spawn, countdown) is cancelled:
  it is never live again whatever handler runs follow, and its firing leaves the
  state as it is. A restart timeout that is pending is not cancelled; when it fires
  on that state it finds no player, starts nothing and only leaves the timer table.
\<close>

theorem last_disconnect_stops_round:
  assumes "reachable s" "players (step (Disconnect j) s) = []"
  shows "\<not> gameInProgress (step (Disconnect j) s) \<and>
         treasures (step (Disconnect j) s) = [] \<and>
         (\<forall>i\<in>heldTimers s.
            i \<notin> liveTimers (run es (step (Disconnect j) s)) \<and>
            step (Fire i d ids) (run es (step (Disconnect j) s)) =
              run es (step (Disconnect j) s)) \<and>
         (map_of (timers (step (Disconnect j) s)) r = Some RestartT \<longrightarrow>
            step (Fire r d ids) (step (Disconnect j) s) =
              (step (Disconnect j) s)
                \<lparr>timers := filter (\<lambda>(i, k). i \<noteq> r) (timers (step (Disconnect j) s))\<rparr>)"
proof -
  have "players (disconnect j s) = []" using assms(2) by simp
  then have "\<not> gameInProgress (step (Disconnect j) s)" "treasures (step (Disconnect j) s) = []"
    by (simp_all add: disconnect_def Let_def split: if_splits)
  moreover have "i \<notin> liveTimers (run es (step (Disconnect j) s)) \<and>
      step (Fire i d ids) (run es (step (Disconnect j) s)) = run es (step (Disconnect j) s)"
    if "i \<in> heldTimers s" for i
  proof -
    have n: "i \<notin> liveTimers (run es (step (Disconnect j) s))"
      using assms that by (rule last_disconnect_cancels)
    from n fire_cancelled [OF n] show ?thesis by blast
  qed
  moreover have "step (Fire r d ids) (step (Disconnect j) s) =
      (step (Disconnect j) s)
        \<lparr>timers := filter (\<lambda>(i, k). i \<noteq> r) (timers (step (Disconnect j) s))\<rparr>"
    if "map_of (timers (step (Disconnect j) s)) r = Some RestartT"
    using assms(2) that by (rule restart_without_players)
  ultimately show ?thesis by blast
qed

theorem last_disconnect_stops_round_witness:
  "players (step (Disconnect ''A'') started) = [] \<and> heldTimers started = {0, 1, 2} \<and>
   gameInProgress started \<and> \<not> gameInProgress (step (Disconnect ''A'') started) \<and>
   treasures (step (Disconnect ''A'') started) = [] \<and>
   step (Fire 0 d0 []) (step (Disconnect ''A'') started) = step (Disconnect ''A'') started \<and>
   step (Fire 1 d0 []) (step (Disconnect ''A'') started) = step (Disconnect ''A'') started \<and>
   step (Fire 2 d0 []) (step (Disconnect ''A'') started) = step (Disconnect ''A'') started \<and>
   players (step (Disconnect ''A'') ended) = [] \<and>
   map_of (timers (step (Disconnect ''A'') ended)) 3 = Some RestartT \<and>
   step (Fire 3 d0 []) (step (Disconnect ''A'') ended) =
     (step (Disconnect ''A'') ended)\<lparr>timers := []\<rparr>"
proof -
  have e: "players (step (Disconnect ''A'') started) = []"
    and h: "heldTimers started = {0, 1, 2}" and g: "gameInProgress started"
    by (auto simp: started_eq disconnect_def heldTimers_def)
  have e': "players (step (Disconnect ''A'') ended) = []"
    and t: "map_of (timers (step (Disconnect ''A'') ended)) 3 = Some RestartT"
    and f: "filter (\<lambda>(i, k). i \<noteq> 3) (timers (step (Disconnect ''A'') ended)) = []"
    unfolding abandoned_def [symmetric] by (simp_all add: abandoned_eq ended_eq)
  note r = last_disconnect_stops_round [OF reachable_started e, of "[]" d0 "[]"]
  note r' = last_disconnect_stops_round [OF reachable_ended e', of "[]" d0 "[]" 3]
  from r' t f have "step (Fire 3 d0 []) (step (Disconnect ''A'') ended) =
      (step (Disconnect ''A'') ended)\<lparr>timers := []\<rparr>"
    by simp
  with r h e g e' t show ?thesis by simp
qed

theorem pending_restart_survives_disconnect_counterexample:
  "\<not> gameInProgress ended \<and> map fst (players ended) = [''A''] \<and>
   timers ended = [(3, RestartT)] \<and>
   abandoned = step (Disconnect ''A'') ended \<and> players abandoned = [] \<and>
   timers abandoned = [(3, RestartT)] \<and>
   newcomer = step (JoinGame ''B'' ''Bob'' 0 0.5 0.5 d0) abandoned \<and>
   gameInProgress newcomer \<and>
   timers newcomer = [(3, RestartT), (4, GameLoopT), (5, SpawnT), (6, CountdownT)] \<and>
   step (Fire 3 d0 [''B'']) newcomer \<noteq> newcomer \<and>
   timers (step (Fire 3 d0 [''B'']) newcomer) =
     [(4, GameLoopT), (5, SpawnT), (6, CountdownT), (7, GameLoopT), (8, SpawnT), (9, CountdownT)]"
proof -
  have "\<not> gameInProgress ended" "map fst (players ended) = [''A'']"
    "timers ended = [(3, RestartT)]"
    by (simp_all add: ended_eq)
  moreover have "players abandoned = []" "timers abandoned = [(3, RestartT)]"
    by (simp_all add: abandoned_eq ended_eq)
  moreover have "step (Fire 3 d0 [''B'']) newcomer \<noteq> newcomer"
  proof
    assume "step (Fire 3 d0 [''B'']) newcomer = newcomer"
    then have "timers (step (Fire 3 d0 [''B'']) newcomer) = timers newcomer" by (rule arg_cong)
    then show False by (simp only: newcomer_fields) simp
  qed
  ultimately show ?thesis
    using newcomer_fields abandoned_def newcomer_def by blast
qed

subsection \<open>The tick outside a round\<close>

lemma tick_positions:
  "map (\<lambda>a. (fst a, px (snd a), py (snd a), pz (snd a))) (players (gameLoop s)) =
     map (\<lambda>a. (fst a, px (snd a), py (snd a), pz (snd a))) (players s)"
proof -
  let ?f = "\<lambda>a :: sid \<times> player. (fst a, (snd a)\<lparr>score := 0\<rparr>)"
  let ?g = "\<lambda>b :: sid \<times> player. (fst b, px (snd b), py (snd b), pz (snd b))"
  have "map ?g (map ?f (players (gameLoop s))) = map ?g (map ?f (players s))"
    by (simp only: tick_players_frame)
  then show ?thesis by (simp add: comp_def)
qed

text \<open>
  C5, as the code has it. \<^verbatim>\<open>gameLoop\<close> does not look at the state of the round; what
  keeps it from running outside a round is the cancellation of its interval. In a
  reachable state, once the countdown has ended the round or the last player has
  left, the firing of the tick timer held in \<^verbatim>\<open>gameLoopInterval\<close> leaves the whole
  state, scores, positions and items among it, as it is. In every state a tick
  leaves the registered players and their positions as they are.
\<close>

theorem cancelled_tick_changes_nothing:
  assumes "reachable s" "gameLoopInterval s = Some i"
  shows "(map_of (timers s) c = Some CountdownT \<and> gameTimer s \<le> 1 \<longrightarrow>
            step (Fire i d ids) (step (Fire c d' ids') s) = step (Fire c d' ids') s) \<and>
         (players (step (Disconnect j) s) = [] \<longrightarrow>
            step (Fire i d ids) (step (Disconnect j) s) = step (Disconnect j) s) \<and>
         map (\<lambda>a. (fst a, px (snd a), py (snd a), pz (snd a))) (players (gameLoop s)) =
           map (\<lambda>a. (fst a, px (snd a), py (snd a), pz (snd a))) (players s)"
proof -
  have h: "i \<in> heldTimers s" using assms(2) by (simp add: heldTimers_def)
  have "step (Fire i d ids) (step (Fire c d' ids') s) = step (Fire c d' ids') s"
    if "map_of (timers s) c = Some CountdownT" "gameTimer s \<le> 1"
  proof -
    have "i \<notin> liveTimers (run [] (step (Fire c d' ids') s))"
      using assms(1) that h by (rule round_end_cancels)
    then have "i \<notin> liveTimers (step (Fire c d' ids') s)" by simp
    then show ?thesis by (rule fire_cancelled)
  qed
  moreover have "step (Fire i d ids) (step (Disconnect j) s) = step (Disconnect j) s"
    if "players (step (Disconnect j) s) = []"
  proof -
    have "i \<notin> liveTimers (run [] (step (Disconnect j) s))"
      using assms(1) that h by (rule last_disconnect_cancels)
    then have "i \<notin> liveTimers (step (Disconnect j) s)" by simp
    then show ?thesis by (rule fire_cancelled)
  qed
  ultimately show ?thesis using tick_positions by blast
qed

theorem cancelled_tick_changes_nothing_witness:
  "gameLoopInterval lastSecond = Some 0 \<and>
   map_of (timers lastSecond) 2 = Some CountdownT \<and> gameTimer lastSecond \<le> 1 \<and>
   step (Fire 0 d0 []) ended = ended \<and>
   players (step (Disconnect ''A'') lastSecond) = [] \<and>
   step (Fire 0 d0 []) (step (Disconnect ''A'') lastSecond) = step (Disconnect ''A'') lastSecond"
proof -
  have a: "gameLoopInterval lastSecond = Some 0"
    and b: "map_of (timers lastSecond) 2 = Some CountdownT" "gameTimer lastSecond \<le> 1"
    and e: "players (step (Disconnect ''A'') lastSecond) = []"
    by (simp_all add: lastSecond_eq started_eq disconnect_def)
  note r = cancelled_tick_changes_nothing [OF reachable_lastSecond a, of 2 d0 "[]" d0 "[]" "''A''",
      folded ended_def]
  from r a b e show ?thesis by blast
qed

theorem tick_outside_round_counterexample:
  "reachable ended \<and> \<not> gameInProgress ended \<and>
   map (score \<circ> snd) (players ended) = [0] \<and> length (treasures ended) = 1 \<and>
   map (score \<circ> snd) (players (gameLoop ended)) = [1] \<and> treasures (gameLoop ended) = [] \<and>
   gameLoop ended \<noteq> ended \<and>
   reachable doubledOver \<and> \<not> gameInProgress doubledOver \<and>
   map_of (timers doubledOver) 4 = Some GameLoopT \<and>
   map (score \<circ> snd) (players doubledOver) = [0, 0] \<and> length (treasures doubledOver) = 1 \<and>
   map (score \<circ> snd) (players (step (Fire 4 d0 []) doubledOver)) = [1, 0] \<and>
   treasures (step (Fire 4 d0 []) doubledOver) = []"
proof -
  have a: "\<not> gameInProgress ended" "map (score \<circ> snd) (players ended) = [0]"
    "length (treasures ended) = 1"
    by (simp_all add: ended_eq)
  have b: "map (score \<circ> snd) (players (gameLoop ended)) = [1]" "treasures (gameLoop ended) = []"
    by (simp_all add: gameLoop_fields ended_eq forEachLoop.simps collides_code)
  have c: "gameLoop ended \<noteq> ended"
  proof
    assume "gameLoop ended = ended"
    then have "treasures (gameLoop ended) = treasures ended" by (rule arg_cong)
    then show False using a(3) b(2) by simp
  qed
  have d: "\<not> gameInProgress doubledOver" "map_of (timers doubledOver) 4 = Some GameLoopT"
    "map (score \<circ> snd) (players doubledOver) = [0, 0]" "length (treasures doubledOver) = 1"
    by (simp_all add: doubledOver_fields rejoined_eq)
  have e: "map (score \<circ> snd) (players (step (Fire 4 d0 []) doubledOver)) = [1, 0]"
    "treasures (step (Fire 4 d0 []) doubledOver) = []"
    by (simp_all add: doubledOver_fields gameLoop_fields rejoined_eq forEachLoop.simps
        collides_code)
  from a b c d e reachable_ended reachable_doubledOver show ?thesis by blast
qed

end
